theory Spec2Isabelle
  imports Complex_Main "HOL-Library.Char_ord" "HOL-Library.List_Lexorder" "HOL-Library.Monad_Syntax"
begin

section \<open>Data model (types.ts, constants.ts)\<close>

text \<open>
  A JavaScript number is modelled as a real: the geometry below is the exact
  geometry of the formulas in the source, without the rounding of IEEE doubles
  and without NaN or the infinities. A JavaScript exception (reading a property
  of \<^verbatim>\<open>undefined\<close>) is the value \<open>None\<close> of an option result.
  The fields \<^verbatim>\<open>x\<close> and \<^verbatim>\<open>y\<close> of a Point are called \<open>ptx\<close> and
  \<open>pty\<close>, so that \<open>x\<close> and \<open>y\<close> stay free for variables.
\<close>

record point =
  ptx :: real
  pty :: real

datatype StationType = Circle | Square | Interchange | Waypoint

record Station =
  sid :: string
  sname :: string
  sx :: real
  sy :: real
  stype :: StationType

record Line =
  lid :: string
  lname :: string
  color :: string
  width :: real
  stationIds :: "string list"
  closedLoop :: bool
  alternateRoute :: bool

definition LINE_SPACING :: real where
  "LINE_SPACING = 7"

text \<open>A Station is passed where the source expects a Point: only its coordinates are read.\<close>

definition pointOf :: "Station \<Rightarrow> point" where
  "pointOf s = \<lparr>ptx = sx s, pty = sy s\<rparr>"

section \<open>Geometry helpers\<close>

definition hypot :: "real \<Rightarrow> real \<Rightarrow> real" where
  "hypot a b = sqrt (a\<^sup>2 + b\<^sup>2)"

definition getDir :: "point \<Rightarrow> point \<Rightarrow> point" where
  "getDir p1 p2 =
     (let d = hypot (ptx p2 - ptx p1) (pty p2 - pty p1)
      in if d < 0.001 then \<lparr>ptx = 0, pty = 0\<rparr>
         else \<lparr>ptx = (ptx p2 - ptx p1) / d, pty = (pty p2 - pty p1) / d\<rparr>)"

definition getNormal :: "point \<Rightarrow> point" where
  "getNormal v = \<lparr>ptx = - pty v, pty = ptx v\<rparr>"

definition getLineIntersection :: "point \<Rightarrow> point \<Rightarrow> point \<Rightarrow> point \<Rightarrow> point" where
  "getLineIntersection p1 d1 p2 d2 =
     (let det = ptx d1 * pty d2 - pty d1 * ptx d2
      in if \<bar>det\<bar> < 0.0001 then p1
         else
           let dx = ptx p2 - ptx p1;
               dy = pty p2 - pty p1;
               t = (dx * pty d2 - dy * ptx d2) / det
           in \<lparr>ptx = ptx p1 + t * ptx d1, pty = pty p1 + t * pty d1\<rparr>)"

section \<open>Sorting with a comparator\<close>

text \<open>
  \<^verbatim>\<open>Array.prototype.sort(cmp)\<close> is a stable sort: an element goes before the
  first element it does not compare greater than.
\<close>

fun insert_by :: "('a \<Rightarrow> 'a \<Rightarrow> real) \<Rightarrow> 'a \<Rightarrow> 'a list \<Rightarrow> 'a list" where
  "insert_by cmp a [] = [a]"
| "insert_by cmp a (b # bs) = (if cmp a b \<le> 0 then a # b # bs else b # insert_by cmp a bs)"

definition sort_by :: "('a \<Rightarrow> 'a \<Rightarrow> real) \<Rightarrow> 'a list \<Rightarrow> 'a list" where
  "sort_by cmp xs = foldr (insert_by cmp) xs []"

section \<open>Octolinear segment router\<close>

record candidate =
  points :: "point list"
  len :: real
  horizontalFirst :: bool

definition tryPath :: "point \<Rightarrow> point \<Rightarrow> point \<Rightarrow> bool \<Rightarrow> candidate" where
  "tryPath p1 p2 mid hf =
     \<lparr>points = [p1, mid, p2],
      len = hypot (ptx mid - ptx p1) (pty mid - pty p1) + hypot (ptx p2 - ptx mid) (pty p2 - pty mid),
      horizontalFirst = hf\<rparr>"

text \<open>The eight candidates, in the order in which the source pushes them.\<close>

definition tryCandidates :: "point \<Rightarrow> point \<Rightarrow> candidate list" where
  "tryCandidates p1 p2 =
     (let x1 = ptx p2 + (pty p1 - pty p2);
          x2 = ptx p2 - (pty p1 - pty p2);
          y1 = pty p2 + (ptx p1 - ptx p2);
          y2 = pty p2 - (ptx p1 - ptx p2);
          x3 = ptx p1 + (pty p2 - pty p1);
          x4 = ptx p1 - (pty p2 - pty p1);
          y3 = pty p1 + (ptx p2 - ptx p1);
          y4 = pty p1 - (ptx p2 - ptx p1)
      in [tryPath p1 p2 \<lparr>ptx = x1, pty = pty p1\<rparr> True,
          tryPath p1 p2 \<lparr>ptx = x2, pty = pty p1\<rparr> True,
          tryPath p1 p2 \<lparr>ptx = ptx p1, pty = y1\<rparr> False,
          tryPath p1 p2 \<lparr>ptx = ptx p1, pty = y2\<rparr> False,
          tryPath p1 p2 \<lparr>ptx = x3, pty = pty p2\<rparr> False,
          tryPath p1 p2 \<lparr>ptx = x4, pty = pty p2\<rparr> False,
          tryPath p1 p2 \<lparr>ptx = ptx p2, pty = y3\<rparr> True,
          tryPath p1 p2 \<lparr>ptx = ptx p2, pty = y4\<rparr> True])"

definition lenCmp :: "candidate \<Rightarrow> candidate \<Rightarrow> real" where
  "lenCmp a b = len a - len b"

definition familyCmp :: "bool \<Rightarrow> candidate \<Rightarrow> candidate \<Rightarrow> real" where
  "familyCmp alternate a b =
     (if horizontalFirst a = horizontalFirst b then 0
      else if alternate then (if horizontalFirst a then 1 else - 1)
      else (if horizontalFirst a then - 1 else 1))"

text \<open>
  Lines 153 to 185 of the router: the filter on the candidates, the two sorts and the
  choice of the first survivor. \<open>valid[0]\<close> and \<open>bestCandidates[0]\<close> are read
  without a check in the source; reading a field of a missing element throws.
\<close>

definition selectRoute :: "point \<Rightarrow> point \<Rightarrow> bool \<Rightarrow> real \<Rightarrow> candidate list \<Rightarrow> point list option" where
  "selectRoute p1 p2 alternate direct candidates =
     (let valid = filter (\<lambda>c. len c < direct * 1.5) candidates
      in if length valid = 0 then Some [p1, p2]
         else
           (case sort_by lenCmp valid of
              [] \<Rightarrow> None
            | c0 # rest \<Rightarrow>
                let shortestLen = len c0;
                    bestCandidates = filter (\<lambda>c. \<bar>len c - shortestLen\<bar> < 1) (c0 # rest)
                in (case sort_by (familyCmp alternate) bestCandidates of
                      [] \<Rightarrow> None
                    | b # bs \<Rightarrow> Some (points b))))"

definition getOctolinearSegment :: "point \<Rightarrow> point \<Rightarrow> bool \<Rightarrow> point list option" where
  "getOctolinearSegment p1 p2 alternate =
     (let dx = ptx p2 - ptx p1;
          dy = pty p2 - pty p1;
          adx = \<bar>dx\<bar>;
          ady = \<bar>dy\<bar>
      in if adx < 1 \<or> ady < 1 \<or> \<bar>adx - ady\<bar> < 1 then Some [p1, p2]
         else selectRoute p1 p2 alternate (hypot dx dy) (tryCandidates p1 p2))"

text \<open>The alignment test of the router, and what an octolinear sub-segment is.\<close>

definition aligned :: "point \<Rightarrow> point \<Rightarrow> bool" where
  "aligned p1 p2 =
     (\<bar>ptx p2 - ptx p1\<bar> < 1 \<or> \<bar>pty p2 - pty p1\<bar> < 1
      \<or> \<bar>\<bar>ptx p2 - ptx p1\<bar> - \<bar>pty p2 - pty p1\<bar>\<bar> < 1)"

definition octolinear :: "point \<Rightarrow> point \<Rightarrow> bool" where
  "octolinear a b =
     (pty a = pty b \<or> ptx a = ptx b \<or> \<bar>ptx b - ptx a\<bar> = \<bar>pty b - pty a\<bar>)"


section \<open>JavaScript array and string primitives\<close>

text \<open>\<open>xs[i]\<close>: the element, or \<^verbatim>\<open>undefined\<close> outside the array.\<close>

definition elemAt :: "'a list \<Rightarrow> int \<Rightarrow> 'a option" where
  "elemAt xs i = (if 0 \<le> i \<and> i < int (length xs) then Some (xs ! nat i) else None)"

text \<open>\<open>xs.indexOf(v)\<close>: the index of the first element equal to \<open>v\<close>, or \<open>-1\<close>.\<close>

fun indexOf :: "'a list \<Rightarrow> 'a \<Rightarrow> int" where
  "indexOf [] v = - 1"
| "indexOf (a # xs) v =
     (if a = v then 0 else (let i = indexOf xs v in if i = - 1 then - 1 else i + 1))"

text \<open>
  The decimal text of an integer, as a template literal prints a number that
  \<open>Math.round\<close> returned: the digits, after a minus sign for a negative number (a
  rounded \<open>-0\<close> prints as \<open>0\<close>; JavaScript prints the digits up to a magnitude of
  \<open>10\<^sup>2\<^sup>1\<close>). \<open>Math.round\<close> rounds a half upwards, as \<^const>\<open>round\<close> does.
\<close>

fun showNat :: "nat \<Rightarrow> string" where
  "showNat n =
     (if n < 10 then [''0123456789'' ! n]
      else showNat (n div 10) @ [''0123456789'' ! (n mod 10)])"

declare showNat.simps [simp del]

definition showInt :: "int \<Rightarrow> string" where
  "showInt i = (if i < 0 then CHR ''-'' # showNat (nat (- i)) else showNat (nat i))"

definition pointKey :: "point \<Rightarrow> string" where
  "pointKey p = showInt (round (ptx p)) @ '','' @ showInt (round (pty p))"

text \<open>
  The normalised key of an undirected segment; the source builds it in the same way in
  \<open>register\<close> and in \<open>getLineOffset\<close>. Strings compare lexicographically by
  character code, a proper prefix before the longer string.
\<close>

definition segmentKey :: "point \<Rightarrow> point \<Rightarrow> string" where
  "segmentKey pA pB =
     (let kA = pointKey pA;
          kB = pointKey pB
      in if kA < kB then kA @ ''_'' @ kB else kB @ ''_'' @ kA)"

section \<open>Segment registry\<close>

type_synonym registry = "string \<rightharpoonup> string list"

text \<open>
  \<open>register\<close> stores the empty list under a new key and then reads the list back, so the
  list is always found; the id is pushed unless the list includes it.
\<close>

definition register :: "registry \<Rightarrow> point \<Rightarrow> point \<Rightarrow> string \<Rightarrow> registry" where
  "register registry pA pB lineId =
     (if hypot (ptx pA - ptx pB) (pty pA - pty pB) < 1 then registry
      else
        let key = segmentKey pA pB;
            registry' = (if registry key = None then registry(key \<mapsto> []) else registry)
        in (case registry' key of
              None \<Rightarrow> registry'
            | Some list \<Rightarrow>
                if lineId \<in> set list then registry' else registry'(key \<mapsto> list @ [lineId])))"

text \<open>The inner loop over \<open>j\<close>: every pair of consecutive points of a routed hop.\<close>

fun registerPts :: "registry \<Rightarrow> point list \<Rightarrow> string \<Rightarrow> registry" where
  "registerPts registry (a # b # ps) lineId =
     registerPts (register registry a b lineId) (b # ps) lineId"
| "registerPts registry ps lineId = registry"

text \<open>The loop over \<open>i\<close>: every pair of consecutive resolved stations.\<close>

fun registerHops :: "registry \<Rightarrow> point list \<Rightarrow> bool \<Rightarrow> string \<Rightarrow> registry option" where
  "registerHops registry (a # b # cs) alternate lineId =
     (case getOctolinearSegment a b alternate of
        None \<Rightarrow> None
      | Some ps \<Rightarrow> registerHops (registerPts registry ps lineId) (b # cs) alternate lineId)"
| "registerHops registry cs alternate lineId = Some registry"

text \<open>
  \<open>ids.map(id => stations.find(s => s.id === id)).filter(Boolean)\<close>: the first station
  with each id, the ids without a station dropped.
\<close>

definition resolveStations :: "Station list \<Rightarrow> string list \<Rightarrow> Station list" where
  "resolveStations stations ids = List.map_filter (\<lambda>i. find (\<lambda>s. sid s = i) stations) ids"

definition registerLine :: "Station list \<Rightarrow> registry \<Rightarrow> Line \<Rightarrow> registry option" where
  "registerLine stations registry line =
     (if length (stationIds line) < 2 then Some registry
      else
        let stationCoords = map pointOf (resolveStations stations (stationIds line))
        in if length stationCoords < 2 then Some registry
           else
             (case registerHops registry stationCoords (alternateRoute line) (lid line) of
                None \<Rightarrow> None
              | Some registry' \<Rightarrow>
                  if closedLoop line then
                    (case getOctolinearSegment (last stationCoords) (hd stationCoords)
                            (alternateRoute line) of
                       None \<Rightarrow> None
                     | Some ps \<Rightarrow> Some (registerPts registry' ps (lid line)))
                  else Some registry'))"

fun registerLines :: "Station list \<Rightarrow> registry \<Rightarrow> Line list \<Rightarrow> registry option" where
  "registerLines stations registry [] = Some registry"
| "registerLines stations registry (line # rest) =
     (case registerLine stations registry line of
        None \<Rightarrow> None
      | Some registry' \<Rightarrow> registerLines stations registry' rest)"

text \<open>\<open>list.sort()\<close> without a comparator sorts strings in ascending order.\<close>

definition segmentRegistry :: "Line list \<Rightarrow> Station list \<Rightarrow> registry option" where
  "segmentRegistry lines stations =
     (case registerLines stations Map.empty lines of
        None \<Rightarrow> None
      | Some registry \<Rightarrow> Some (\<lambda>key. map_option sort (registry key)))"

section \<open>Parallel offset resolver\<close>

text \<open>The registry the source reads from its closure is a parameter here.\<close>

definition getLineOffset :: "registry \<Rightarrow> point \<Rightarrow> point \<Rightarrow> string \<Rightarrow> real" where
  "getLineOffset registry p1 p2 lineId =
     (case registry (segmentKey p1 p2) of
        None \<Rightarrow> 0
      | Some linesOnSeg \<Rightarrow>
          let index = indexOf linesOnSeg lineId
          in if index = - 1 then 0
             else
               let count = length linesOnSeg
               in (real_of_int index - (real count - 1) / 2) * LINE_SPACING)"

section \<open>Line path composer\<close>

text \<open>
  The path string is modelled by its draw commands: \<open>M x y\<close>, \<open>L x y\<close> and
  \<open>Q cx cy x y\<close>. The empty string is the empty list.
\<close>

datatype cmd = M real real | L real real | Q real real real real

text \<open>The body of the loop of \<open>generateSmoothPath\<close> at the interior vertex \<open>p1\<close>.\<close>

definition roundCorner :: "point \<Rightarrow> point \<Rightarrow> point \<Rightarrow> real \<Rightarrow> cmd list" where
  "roundCorner p0 p1 p2 cornerRadius =
     (let v1 = \<lparr>ptx = ptx p1 - ptx p0, pty = pty p1 - pty p0\<rparr>;
          v2 = \<lparr>ptx = ptx p2 - ptx p1, pty = pty p2 - pty p1\<rparr>;
          len1 = hypot (ptx v1) (pty v1);
          len2 = hypot (ptx v2) (pty v2);
          r = min cornerRadius (min (len1 / 2) (len2 / 2))
      in if r < 1 then [L (ptx p1) (pty p1)]
         else
           let u1 = \<lparr>ptx = ptx v1 / len1, pty = pty v1 / len1\<rparr>;
               u2 = \<lparr>ptx = ptx v2 / len2, pty = pty v2 / len2\<rparr>;
               qStart = \<lparr>ptx = ptx p1 - ptx u1 * r, pty = pty p1 - pty u1 * r\<rparr>;
               qEnd = \<lparr>ptx = ptx p1 + ptx u2 * r, pty = pty p1 + pty u2 * r\<rparr>
           in [L (ptx qStart) (pty qStart), Q (ptx p1) (pty p1) (ptx qEnd) (pty qEnd)])"

fun roundCorners :: "point list \<Rightarrow> real \<Rightarrow> cmd list" where
  "roundCorners (p0 # p1 # p2 # ps) cornerRadius =
     roundCorner p0 p1 p2 cornerRadius @ roundCorners (p1 # p2 # ps) cornerRadius"
| "roundCorners ps cornerRadius = []"

definition generateSmoothPath :: "point list \<Rightarrow> real \<Rightarrow> cmd list" where
  "generateSmoothPath ps cornerRadius =
     (if length ps < 2 then []
      else [M (ptx (hd ps)) (pty (hd ps))] @ roundCorners ps cornerRadius
           @ [L (ptx (last ps)) (pty (last ps))])"

text \<open>The first loop of \<open>getLinePath\<close>: the routed points of every hop but its first.\<close>

fun appendHops :: "point list \<Rightarrow> point list \<Rightarrow> bool \<Rightarrow> point list option" where
  "appendHops rawPoints (a # b # cs) alternate =
     do { seg \<leftarrow> getOctolinearSegment a b alternate;
          appendHops (rawPoints @ tl seg) (b # cs) alternate }"
| "appendHops rawPoints cs alternate = Some rawPoints"

text \<open>
  The corner branch of the second loop: the intersection of the two shifted lines, or the
  vertex itself when a direction is degenerate.
\<close>

definition cornerPoint :: "registry \<Rightarrow> string \<Rightarrow> point \<Rightarrow> point \<Rightarrow> point \<Rightarrow> point" where
  "cornerPoint registry lineId pPrev pCurr pNext =
     (let dIn = getDir pPrev pCurr;
          dOut = getDir pCurr pNext
      in if hypot (ptx dIn) (pty dIn) < 0.001 \<or> hypot (ptx dOut) (pty dOut) < 0.001 then pCurr
         else
           let offIn = getLineOffset registry pPrev pCurr lineId;
               offOut = getLineOffset registry pCurr pNext lineId;
               nIn = getNormal dIn;
               nOut = getNormal dOut;
               pInShift = \<lparr>ptx = ptx pCurr + ptx nIn * offIn, pty = pty pCurr + pty nIn * offIn\<rparr>;
               pOutShift = \<lparr>ptx = ptx pCurr + ptx nOut * offOut, pty = pty pCurr + pty nOut * offOut\<rparr>
           in getLineIntersection pInShift dIn pOutShift dOut)"

text \<open>
  One round of the second loop: the offset vertex for index \<open>i\<close>. A point read outside
  \<open>rawPoints\<close> is \<^verbatim>\<open>undefined\<close>, and each one read here has its coordinates read
  next, which throws.
\<close>

definition offsetVertex :: "registry \<Rightarrow> Line \<Rightarrow> point list \<Rightarrow> int \<Rightarrow> int \<Rightarrow> point option" where
  "offsetVertex registry line rawPoints maxIdx i =
     do { pCurr \<leftarrow> elemAt rawPoints i;
          (dirIn, offsetIn) \<leftarrow>
            (if i > 0 then
               do { pPrev \<leftarrow> elemAt rawPoints (i - 1);
                    Some (getDir pPrev pCurr, getLineOffset registry pPrev pCurr (lid line)) }
             else if closedLoop line then
               do { pPrev \<leftarrow> elemAt rawPoints maxIdx;
                    Some (getDir pPrev pCurr, getLineOffset registry pPrev pCurr (lid line)) }
             else Some (\<lparr>ptx = 0, pty = 0\<rparr>, 0));
          (dirOut, offsetOut) \<leftarrow>
            (if i < int (length rawPoints) - 1 then
               do { pNext \<leftarrow> elemAt rawPoints (i + 1);
                    Some (getDir pCurr pNext, getLineOffset registry pCurr pNext (lid line)) }
             else if closedLoop line then
               do { pNext \<leftarrow> elemAt rawPoints 1;
                    Some (getDir pCurr pNext, getLineOffset registry pCurr pNext (lid line)) }
             else Some (\<lparr>ptx = 0, pty = 0\<rparr>, 0));
          let normIn = getNormal dirIn;
              normOut = getNormal dirOut
          in if i = 0 \<and> \<not> closedLoop line then
               Some \<lparr>ptx = ptx pCurr + ptx normOut * offsetOut,
                     pty = pty pCurr + pty normOut * offsetOut\<rparr>
             else if i = maxIdx \<and> \<not> closedLoop line then
               Some \<lparr>ptx = ptx pCurr + ptx normIn * offsetIn,
                     pty = pty pCurr + pty normIn * offsetIn\<rparr>
             else
               do { pPrev \<leftarrow> (if i > 0 then elemAt rawPoints (i - 1) else elemAt rawPoints maxIdx);
                    pNext \<leftarrow> (if i < maxIdx then elemAt rawPoints (i + 1) else elemAt rawPoints 1);
                    Some (cornerPoint registry (lid line) pPrev pCurr pNext) } }"

text \<open>
  \<open>rawPoints.push(rawPoints[1])\<close> would push \<^verbatim>\<open>undefined\<close> onto a one-point array, and
  the second loop would then read its coordinates at index 0: the missing point is the
  exception here already.
\<close>

definition getLinePath :: "registry \<Rightarrow> Station list \<Rightarrow> Line \<Rightarrow> cmd list option" where
  "getLinePath registry stations line =
     (let coords = map pointOf (resolveStations stations (stationIds line))
      in if length coords < 2 then Some []
         else
           do { first \<leftarrow> elemAt coords 0;
                hops \<leftarrow> appendHops [first] coords (alternateRoute line);
                rawPoints \<leftarrow>
                  (if closedLoop line then
                     do { lastC \<leftarrow> elemAt coords (int (length coords) - 1);
                          seg \<leftarrow> getOctolinearSegment lastC first (alternateRoute line);
                          wrap \<leftarrow> elemAt (hops @ tl seg) 1;
                          Some (hops @ tl seg @ [wrap]) }
                   else Some hops);
                let maxIdx = (if closedLoop line then int (length rawPoints) - 2
                              else int (length rawPoints) - 1)
                in do { offsetPoints \<leftarrow>
                          those (map (offsetVertex registry line rawPoints maxIdx) [0..maxIdx]);
                        Some (generateSmoothPath
                                (if closedLoop line \<and> length offsetPoints > 0
                                 then offsetPoints @ [hd offsetPoints] else offsetPoints)
                                16) } })"

section \<open>Station shape classifier\<close>

datatype ShapeKind = standard | pill

record StationShape =
  shapeType :: ShapeKind
  shapeCount :: nat
  shapeAngle :: real

text \<open>\<open>Math.atan2(y, x)\<close>: the angle of the vector \<open>(x, y)\<close>, in \<open>(-\<pi>, \<pi>]\<close>.\<close>

definition atan2 :: "real \<Rightarrow> real \<Rightarrow> real" where
  "atan2 b a =
     (if a > 0 then arctan (b / a)
      else if a < 0 \<and> b \<ge> 0 then arctan (b / a) + pi
      else if a < 0 \<and> b < 0 then arctan (b / a) - pi
      else if b > 0 then pi / 2
      else if b < 0 then - (pi / 2)
      else 0)"

definition dot :: "point \<Rightarrow> point \<Rightarrow> real" where
  "dot u v = ptx u * ptx v + pty u * pty v"

text \<open>
  The routed point before the station on a line, for the index \<open>idx\<close> of the station in
  the line's sequence: \<open>Some None\<close> when there is none (\<open>pPrev\<close> stays \<open>null\<close>).
\<close>

definition prevPointAt :: "Station list \<Rightarrow> Station \<Rightarrow> Line \<Rightarrow> int \<Rightarrow> point option option" where
  "prevPointAt stations station line idx =
     (let isStart = (idx = 0);
          stationPt = \<lparr>ptx = sx station, pty = sy station\<rparr>;
          wanted = (if \<not> isStart then elemAt (stationIds line) (idx - 1)
                    else elemAt (stationIds line) (int (length (stationIds line)) - 1))
      in if \<not> isStart \<or> closedLoop line then
           (case find (\<lambda>s. Some (sid s) = wanted) stations of
              None \<Rightarrow> Some None
            | Some sPrev \<Rightarrow>
                do { seg \<leftarrow> getOctolinearSegment (pointOf sPrev) stationPt (alternateRoute line);
                     Some (elemAt seg (int (length seg) - 2)) })
         else Some None)"

definition nextPointAt :: "Station list \<Rightarrow> Station \<Rightarrow> Line \<Rightarrow> int \<Rightarrow> point option option" where
  "nextPointAt stations station line idx =
     (let isEnd = (idx = int (length (stationIds line)) - 1);
          stationPt = \<lparr>ptx = sx station, pty = sy station\<rparr>;
          wanted = (if \<not> isEnd then elemAt (stationIds line) (idx + 1)
                    else elemAt (stationIds line) 0)
      in if \<not> isEnd \<or> closedLoop line then
           (case find (\<lambda>s. Some (sid s) = wanted) stations of
              None \<Rightarrow> Some None
            | Some sNext \<Rightarrow>
                do { seg \<leftarrow> getOctolinearSegment stationPt (pointOf sNext) (alternateRoute line);
                     Some (elemAt seg 1) })
         else Some None)"

definition prevPoint :: "Station list \<Rightarrow> Station \<Rightarrow> Line \<Rightarrow> point option option" where
  "prevPoint stations station line =
     prevPointAt stations station line (indexOf (stationIds line) (sid station))"

definition nextPoint :: "Station list \<Rightarrow> Station \<Rightarrow> Line \<Rightarrow> point option option" where
  "nextPoint stations station line =
     nextPointAt stations station line (indexOf (stationIds line) (sid station))"

text \<open>
  The loop over the passing lines, with its two variables: the result is the pair of
  \<open>validPill\<close> and \<open>bundleDir\<close> when the loop ends or breaks.
\<close>

fun pillLoop :: "Station list \<Rightarrow> Station \<Rightarrow> Line list \<Rightarrow> point option \<Rightarrow> (bool \<times> point option) option" where
  "pillLoop stations station [] bundleDir = Some (True, bundleDir)"
| "pillLoop stations station (line # rest) bundleDir =
     do { pPrev \<leftarrow> prevPoint stations station line;
          pNext \<leftarrow> nextPoint stations station line;
          (case (pPrev, pNext) of
             (Some pp, Some pn) \<Rightarrow>
               let stationPt = \<lparr>ptx = sx station, pty = sy station\<rparr>;
                   dIn = getDir pp stationPt;
                   dOut = getDir stationPt pn
               in if dot dIn dOut < 0.99 then Some (False, bundleDir)
                  else
                    (case bundleDir of
                       None \<Rightarrow> pillLoop stations station rest (Some dOut)
                     | Some bd \<Rightarrow>
                         if dot bd dOut < 0.99 then Some (False, bundleDir)
                         else pillLoop stations station rest bundleDir)
           | _ \<Rightarrow> Some (False, bundleDir)) }"

definition getStationShape :: "Line list \<Rightarrow> Station list \<Rightarrow> Station \<Rightarrow> StationShape option" where
  "getStationShape lines stations station =
     (let passingLines = filter (\<lambda>l. sid station \<in> set (stationIds l)) lines
      in if length passingLines < 2
         then Some \<lparr>shapeType = standard, shapeCount = 1, shapeAngle = 0\<rparr>
         else
           do { (validPill, bundleDir) \<leftarrow> pillLoop stations station passingLines None;
                (case bundleDir of
                   Some bd \<Rightarrow>
                     if validPill then
                       let normal = getNormal bd;
                           angle = atan2 (pty normal) (ptx normal) * 180 / pi
                       in Some \<lparr>shapeType = pill, shapeCount = length passingLines, shapeAngle = angle\<rparr>
                     else Some \<lparr>shapeType = standard, shapeCount = length passingLines, shapeAngle = 0\<rparr>
                 | None \<Rightarrow>
                     Some \<lparr>shapeType = standard, shapeCount = length passingLines, shapeAngle = 0\<rparr>) })"

section \<open>Deletion (App.tsx)\<close>

datatype DeleteKind = DeleteStation | DeleteLine

record AppState =
  appStations :: "Station list"
  appLines :: "Line list"
  selectedStationId :: "string option"
  selectedLineId :: "string option"

definition handleDelete :: "AppState \<Rightarrow> DeleteKind \<Rightarrow> string \<Rightarrow> AppState" where
  "handleDelete app kind ident =
     (case kind of
        DeleteStation \<Rightarrow>
          app\<lparr>appStations := filter (\<lambda>s. sid s \<noteq> ident) (appStations app),
              appLines :=
                filter (\<lambda>l. length (stationIds l) > 0)
                  (map (\<lambda>l. l\<lparr>stationIds := filter (\<lambda>i. i \<noteq> ident) (stationIds l)\<rparr>) (appLines app)),
              selectedStationId :=
                (if selectedStationId app = Some ident then None else selectedStationId app)\<rparr>
      | DeleteLine \<Rightarrow>
          app\<lparr>appLines := filter (\<lambda>l. lid l \<noteq> ident) (appLines app),
              selectedLineId :=
                (if selectedLineId app = Some ident then None else selectedLineId app)\<rparr>)"

section \<open>Notions used to state the results\<close>

text \<open>The line ids stored under a key, as a set.\<close>

definition idsAt :: "registry \<Rightarrow> string \<Rightarrow> string set" where
  "idsAt registry key = (case registry key of None \<Rightarrow> {} | Some list \<Rightarrow> set list)"

text \<open>Every stored list is free of duplicates and not empty.\<close>

definition wellFormed :: "registry \<Rightarrow> bool" where
  "wellFormed registry = (\<forall>key list. registry key = Some list \<longrightarrow> distinct list \<and> list \<noteq> [])"

text \<open>What one line alone registers under a key.\<close>

definition lineContribution :: "Station list \<Rightarrow> Line \<Rightarrow> string \<Rightarrow> string set" where
  "lineContribution stations line key =
     (case registerLine stations Map.empty line of
        None \<Rightarrow> {}
      | Some registry \<Rightarrow> idsAt registry key)"

text \<open>
  A step of the registry's construction that never fails, adds the ids \<open>C key\<close> under each
  key whatever the registry was, and keeps it well formed.
\<close>

definition adds :: "(registry \<Rightarrow> registry option) \<Rightarrow> (string \<Rightarrow> string set) \<Rightarrow> bool" where
  "adds f C =
     (\<forall>registry. \<exists>r. f registry = Some r \<and> (\<forall>key. idsAt r key = idsAt registry key \<union> C key)
        \<and> (wellFormed registry \<longrightarrow> wellFormed r))"

section \<open>Example data\<close>

text \<open>Two stations on a horizontal line, and two lines that run between them in opposite
  directions; the line with the greater id comes first in the collection.\<close>

definition stA :: Station where
  "stA = \<lparr>sid = ''a'', sname = ''A'', sx = 0, sy = 0, stype = Circle\<rparr>"

definition stB :: Station where
  "stB = \<lparr>sid = ''b'', sname = ''B'', sx = 100, sy = 0, stype = Circle\<rparr>"

definition ln1 :: Line where
  "ln1 = \<lparr>lid = ''l1'', lname = ''One'', color = ''#ef4444'', width = 6,
          stationIds = [''b'', ''a''], closedLoop = False, alternateRoute = False\<rparr>"

definition ln2 :: Line where
  "ln2 = \<lparr>lid = ''l2'', lname = ''Two'', color = ''#3b82f6'', width = 6,
          stationIds = [''a'', ''b''], closedLoop = False, alternateRoute = False\<rparr>"

text \<open>A third station on the same horizontal line, two lines that run through the three
  stations, a line that visits the middle station twice, a line with one station, and an
  application state.\<close>

definition ln3 :: Line where
  "ln3 = \<lparr>lid = ''l3'', lname = ''Three'', color = ''#22c55e'', width = 6,
          stationIds = [''a''], closedLoop = False, alternateRoute = False\<rparr>"

definition exampleApp :: AppState where
  "exampleApp = \<lparr>appStations = [stA, stB], appLines = [ln2, ln3],
                  selectedStationId = Some ''a'', selectedLineId = None\<rparr>"

definition stC :: Station where
  "stC = \<lparr>sid = ''c'', sname = ''C'', sx = 200, sy = 0, stype = Circle\<rparr>"

definition ln4 :: Line where
  "ln4 = \<lparr>lid = ''l4'', lname = ''Four'', color = ''#eab308'', width = 6,
          stationIds = [''a'', ''b'', ''c''], closedLoop = False, alternateRoute = False\<rparr>"

definition ln5 :: Line where
  "ln5 = \<lparr>lid = ''l5'', lname = ''Five'', color = ''#a855f7'', width = 6,
          stationIds = [''a'', ''b'', ''c''], closedLoop = False, alternateRoute = True\<rparr>"

definition ln6 :: Line where
  "ln6 = \<lparr>lid = ''l6'', lname = ''Six'', color = ''#f97316'', width = 6,
          stationIds = [''a'', ''b'', ''c'', ''b'', ''a''], closedLoop = False, alternateRoute = False\<rparr>"

section \<open>Notions used to state the classifier's results\<close>

text \<open>The lines through a station; whether a line has both routed neighbours and passes
  straight through; its outgoing direction at the station; and the two tests of the loop
  against a reference direction.\<close>

definition passing :: "Line list \<Rightarrow> Station \<Rightarrow> Line list" where
  "passing lines station = filter (\<lambda>l. sid station \<in> set (stationIds l)) lines"

definition straightThrough :: "Station list \<Rightarrow> Station \<Rightarrow> Line \<Rightarrow> bool" where
  "straightThrough stations station line =
     (case (prevPoint stations station line, nextPoint stations station line) of
        (Some (Some pp), Some (Some pn)) \<Rightarrow>
          0.99 \<le> dot (getDir pp (pointOf station)) (getDir (pointOf station) pn)
      | _ \<Rightarrow> False)"

definition flowDir :: "Station list \<Rightarrow> Station \<Rightarrow> Line \<Rightarrow> point" where
  "flowDir stations station line =
     (case nextPoint stations station line of
        Some (Some pn) \<Rightarrow> getDir (pointOf station) pn
      | _ \<Rightarrow> \<lparr>ptx = 0, pty = 0\<rparr>)"

definition qualifies :: "Station list \<Rightarrow> Station \<Rightarrow> point \<Rightarrow> Line \<Rightarrow> bool" where
  "qualifies stations station ref line =
     (straightThrough stations station line \<and> 0.99 \<le> dot ref (flowDir stations station line))"

section \<open>Binary64 arithmetic\<close>

text \<open>
  A JavaScript number is an IEEE 754 binary64 value, and every arithmetic operation
  returns the exact result rounded to the nearest such value, ties to even. Here
  \<open>binary64 x\<close> is the real number with at most 53 significant bits nearest to \<open>x\<close>.
  The exponent is not bounded: there is no overflow to \<^verbatim>\<open>Infinity\<close> and there are no
  subnormal numbers, which changes nothing at the magnitudes of canvas coordinates.
\<close>

definition roundTiesToEven :: "real \<Rightarrow> int" where
  "roundTiesToEven x =
     (let n = \<lfloor>x\<rfloor>;
          r = x - of_int n
      in if r < 1 / 2 then n
         else if 1 / 2 < r then n + 1
         else if even n then n else n + 1)"

definition binary64 :: "real \<Rightarrow> real" where
  "binary64 x =
     (if x = 0 then 0
      else
        let e = \<lfloor>log 2 \<bar>x\<bar>\<rfloor>;
            ulp = 2 powi (e - 52)
        in of_int (roundTiesToEven (x / ulp)) * ulp)"

section \<open>The router in rounded arithmetic\<close>

text \<open>
  The router once more, line by line, with every subtraction, addition and
  multiplication of the source rounded by \<open>rnd\<close>, and with \<^verbatim>\<open>Math.hypot\<close> as a parameter
  \<open>hyp\<close>: ECMAScript leaves the accuracy of \<^verbatim>\<open>Math.hypot\<close> to the implementation.
  \<^verbatim>\<open>Math.abs\<close> and the comparisons are exact. With \<open>rnd\<close> the identity and \<open>hyp\<close> the exact
  \<open>hypot\<close> this is the router over the reals defined above.
\<close>

definition tryPathR :: "(real \<Rightarrow> real) \<Rightarrow> (real \<Rightarrow> real \<Rightarrow> real) \<Rightarrow> point \<Rightarrow> point \<Rightarrow> point \<Rightarrow> bool \<Rightarrow> candidate" where
  "tryPathR rnd hyp p1 p2 mid hf =
     \<lparr>points = [p1, mid, p2],
      len = rnd (hyp (rnd (ptx mid - ptx p1)) (rnd (pty mid - pty p1))
                 + hyp (rnd (ptx p2 - ptx mid)) (rnd (pty p2 - pty mid))),
      horizontalFirst = hf\<rparr>"

definition tryCandidatesR :: "(real \<Rightarrow> real) \<Rightarrow> (real \<Rightarrow> real \<Rightarrow> real) \<Rightarrow> point \<Rightarrow> point \<Rightarrow> candidate list" where
  "tryCandidatesR rnd hyp p1 p2 =
     (let x1 = rnd (ptx p2 + rnd (pty p1 - pty p2));
          x2 = rnd (ptx p2 - rnd (pty p1 - pty p2));
          y1 = rnd (pty p2 + rnd (ptx p1 - ptx p2));
          y2 = rnd (pty p2 - rnd (ptx p1 - ptx p2));
          x3 = rnd (ptx p1 + rnd (pty p2 - pty p1));
          x4 = rnd (ptx p1 - rnd (pty p2 - pty p1));
          y3 = rnd (pty p1 + rnd (ptx p2 - ptx p1));
          y4 = rnd (pty p1 - rnd (ptx p2 - ptx p1))
      in [tryPathR rnd hyp p1 p2 \<lparr>ptx = x1, pty = pty p1\<rparr> True,
          tryPathR rnd hyp p1 p2 \<lparr>ptx = x2, pty = pty p1\<rparr> True,
          tryPathR rnd hyp p1 p2 \<lparr>ptx = ptx p1, pty = y1\<rparr> False,
          tryPathR rnd hyp p1 p2 \<lparr>ptx = ptx p1, pty = y2\<rparr> False,
          tryPathR rnd hyp p1 p2 \<lparr>ptx = x3, pty = pty p2\<rparr> False,
          tryPathR rnd hyp p1 p2 \<lparr>ptx = x4, pty = pty p2\<rparr> False,
          tryPathR rnd hyp p1 p2 \<lparr>ptx = ptx p2, pty = y3\<rparr> True,
          tryPathR rnd hyp p1 p2 \<lparr>ptx = ptx p2, pty = y4\<rparr> True])"

definition lenCmpR :: "(real \<Rightarrow> real) \<Rightarrow> candidate \<Rightarrow> candidate \<Rightarrow> real" where
  "lenCmpR rnd a b = rnd (len a - len b)"

definition selectRouteR :: "(real \<Rightarrow> real) \<Rightarrow> point \<Rightarrow> point \<Rightarrow> bool \<Rightarrow> real \<Rightarrow> candidate list \<Rightarrow> point list option" where
  "selectRouteR rnd p1 p2 alternate direct candidates =
     (let valid = filter (\<lambda>c. len c < rnd (direct * 1.5)) candidates
      in if length valid = 0 then Some [p1, p2]
         else
           (case sort_by (lenCmpR rnd) valid of
              [] \<Rightarrow> None
            | c0 # rest \<Rightarrow>
                let shortestLen = len c0;
                    bestCandidates = filter (\<lambda>c. \<bar>rnd (len c - shortestLen)\<bar> < 1) (c0 # rest)
                in (case sort_by (familyCmp alternate) bestCandidates of
                      [] \<Rightarrow> None
                    | b # bs \<Rightarrow> Some (points b))))"

definition getOctolinearSegmentR :: "(real \<Rightarrow> real) \<Rightarrow> (real \<Rightarrow> real \<Rightarrow> real) \<Rightarrow> point \<Rightarrow> point \<Rightarrow> bool \<Rightarrow> point list option" where
  "getOctolinearSegmentR rnd hyp p1 p2 alternate =
     (let dx = rnd (ptx p2 - ptx p1);
          dy = rnd (pty p2 - pty p1);
          adx = \<bar>dx\<bar>;
          ady = \<bar>dy\<bar>
      in if adx < 1 \<or> ady < 1 \<or> \<bar>rnd (adx - ady)\<bar> < 1 then Some [p1, p2]
         else selectRouteR rnd p1 p2 alternate (hyp dx dy) (tryCandidatesR rnd hyp p1 p2))"

text \<open>
  A correctly rounded \<^verbatim>\<open>Math.hypot\<close>, and what is asked of any other: a relative error
  of at most one part in a thousand.
\<close>

definition hypot64 :: "real \<Rightarrow> real \<Rightarrow> real" where
  "hypot64 a b = binary64 (hypot a b)"

definition accurate :: "(real \<Rightarrow> real \<Rightarrow> real) \<Rightarrow> bool" where
  "accurate hyp = (\<forall>a b. \<bar>hyp a b - hypot a b\<bar> \<le> hypot a b / 1000)"

text \<open>
  The integer grid. The canvas snaps every station it places or drags to a multiple of
  \<open>GRID_SIZE\<close>; imported stations need not be on it.
\<close>

definition onGrid :: "point \<Rightarrow> bool" where
  "onGrid p = (ptx p \<in> \<int> \<and> pty p \<in> \<int> \<and> \<bar>ptx p\<bar> \<le> 2 ^ 50 \<and> \<bar>pty p\<bar> \<le> 2 ^ 50)"

section \<open>Further example data\<close>

text \<open>
  Two points off the grid: \<open>(0, 0.1)\<close> and \<open>(60, 20.3)\<close> as JavaScript reads these
  decimals, that is the binary64 values nearest to them, and the elbow that the router
  computes between them, whose abscissa is the binary64 value nearest to \<open>39.8\<close>.
\<close>

definition decimalP1 :: point where
  "decimalP1 = \<lparr>ptx = 0, pty = 3602879701896397 / 36028797018963968\<rparr>"

definition decimalP2 :: point where
  "decimalP2 = \<lparr>ptx = 60, pty = 5713942027226317 / 281474976710656\<rparr>"

definition decimalElbow :: point where
  "decimalElbow = \<lparr>ptx = 2800676018271027 / 70368744177664, pty = 3602879701896397 / 36028797018963968\<rparr>"

text \<open>
  A closed loop that starts at station \<open>b\<close>, and the same loop with the id of \<open>b\<close> once
  more at its end.
\<close>

definition ln7 :: Line where
  "ln7 = \<lparr>lid = ''l7'', lname = ''Seven'', color = ''#06b6d4'', width = 6,
          stationIds = [''b'', ''c'', ''a''], closedLoop = True, alternateRoute = False\<rparr>"

definition ln8 :: Line where
  "ln8 = \<lparr>lid = ''l7'', lname = ''Seven'', color = ''#06b6d4'', width = 6,
          stationIds = [''b'', ''c'', ''a'', ''b''], closedLoop = True, alternateRoute = False\<rparr>"

section \<open>The router\<close>

subsection \<open>The two sorts\<close>

lemma insert_by_lenCmp: "insert_by lenCmp a bs = insort_key len a bs"
  by (induction bs) (auto simp: lenCmp_def)

lemma sort_by_lenCmp: "sort_by lenCmp xs = sort_key len xs"
  by (induction xs) (auto simp: sort_by_def insert_by_lenCmp sort_key_def)

lemma insert_by_family_pref:
  "horizontalFirst a = (\<not> alternate) \<Longrightarrow> insert_by (familyCmp alternate) a bs = a # bs"
  by (cases bs) (auto simp: familyCmp_def)

lemma insert_by_family_other:
  "horizontalFirst a = alternate \<Longrightarrow>
   insert_by (familyCmp alternate) a
     (filter (\<lambda>c. horizontalFirst c = (\<not> alternate)) xs @ filter (\<lambda>c. horizontalFirst c = alternate) ys)
   = filter (\<lambda>c. horizontalFirst c = (\<not> alternate)) xs @ a # filter (\<lambda>c. horizontalFirst c = alternate) ys"
proof (induction xs)
  case Nil
  show ?case
  proof (cases "filter (\<lambda>c. horizontalFirst c = alternate) ys")
    case Nil
    then show ?thesis by simp
  next
    case (Cons b bs)
    then have "b \<in> set (filter (\<lambda>c. horizontalFirst c = alternate) ys)" by simp
    then have "horizontalFirst b = alternate" by simp
    with Nil.prems Cons show ?thesis by (simp add: familyCmp_def)
  qed
next
  case (Cons x xs)
  then show ?case by (auto simp: familyCmp_def)
qed

lemma sort_by_family:
  "sort_by (familyCmp alternate) xs
   = filter (\<lambda>c. horizontalFirst c = (\<not> alternate)) xs @ filter (\<lambda>c. horizontalFirst c = alternate) xs"
proof (induction xs)
  case Nil
  then show ?case by (simp add: sort_by_def)
next
  case (Cons x xs)
  have step: "sort_by (familyCmp alternate) (x # xs) = insert_by (familyCmp alternate) x (sort_by (familyCmp alternate) xs)"
    by (simp add: sort_by_def)
  show ?case
  proof (cases "horizontalFirst x = alternate")
    case True
    then show ?thesis using Cons insert_by_family_other[of x alternate xs xs] by (simp add: step)
  next
    case False
    then show ?thesis using Cons insert_by_family_pref[of x alternate] by (simp add: step)
  qed
qed

lemma hypot_zero_r: "hypot a 0 = \<bar>a\<bar>" by (simp add: hypot_def)
lemma hypot_zero_l: "hypot 0 a = \<bar>a\<bar>" by (simp add: hypot_def)
lemma hypot_diag: "\<bar>a\<bar> = \<bar>b\<bar> \<Longrightarrow> hypot a b = sqrt 2 * \<bar>a\<bar>"
proof -
  assume "\<bar>a\<bar> = \<bar>b\<bar>"
  then have "b\<^sup>2 = a\<^sup>2" by (metis power2_abs)
  then have "hypot a b = sqrt (2 * a\<^sup>2)" by (simp add: hypot_def)
  then show ?thesis by (simp add: real_sqrt_mult)
qed

lemma sqrt2_le: "sqrt 2 \<le> 3 / 2"
  by (rule real_le_lsqrt) (simp_all add: power2_eq_square)

lemma elbow_bound:
  assumes "0 < b" "b \<le> a"
  shows "a - b + sqrt 2 * b < sqrt (a\<^sup>2 + b\<^sup>2) * 1.5"
proof -
  have "sqrt 2 * b \<le> 3 / 2 * b" using sqrt2_le assms by (simp add: mult_right_mono)
  then have le: "a - b + sqrt 2 * b \<le> a + b / 2" by simp
  have "(a + b / 2)\<^sup>2 < (9 / 4) * (a\<^sup>2 + b\<^sup>2)"
  proof -
    have pos: "0 < (a - b / 2)\<^sup>2 + a\<^sup>2 * (1/4) + b\<^sup>2 * (7/4)" using assms
      by (intro add_nonneg_pos add_nonneg_nonneg) auto
    have "(a - b / 2)\<^sup>2 + a\<^sup>2 * (1/4) + b\<^sup>2 * (7/4) = (9 / 4) * (a\<^sup>2 + b\<^sup>2) - (a + b / 2)\<^sup>2"
      by (simp add: power2_eq_square algebra_simps)
    with pos show ?thesis by linarith
  qed
  then have "a + b / 2 < sqrt ((9 / 4) * (a\<^sup>2 + b\<^sup>2))" by (rule real_less_rsqrt)
  also have "\<dots> = sqrt (a\<^sup>2 + b\<^sup>2) * 1.5"
  proof -
    have "sqrt (9 / 4 :: real) = 3 / 2" by (rule real_sqrt_unique) (simp_all add: power2_eq_square)
    moreover have "sqrt ((9 / 4) * (a\<^sup>2 + b\<^sup>2)) = sqrt (9 / 4) * sqrt (a\<^sup>2 + b\<^sup>2)"
      by (rule real_sqrt_mult)
    ultimately show ?thesis by simp
  qed
  finally show ?thesis using le by linarith
qed


lemma tryCandidates_shape:
  "c \<in> set (tryCandidates p1 p2) \<Longrightarrow>
   \<exists>mid. points c = [p1, mid, p2] \<and> octolinear p1 mid \<and> octolinear mid p2"
  by (auto simp: tryCandidates_def tryPath_def octolinear_def Let_def)

lemma len_first_pair:
  "len (tryCandidates p1 p2 ! 0) = \<bar>(ptx p2 - ptx p1) - (pty p2 - pty p1)\<bar> + sqrt 2 * \<bar>pty p2 - pty p1\<bar>"
  "len (tryCandidates p1 p2 ! Suc 0) = \<bar>(ptx p2 - ptx p1) + (pty p2 - pty p1)\<bar> + sqrt 2 * \<bar>pty p2 - pty p1\<bar>"
  "len (tryCandidates p1 p2 ! 2) = \<bar>(ptx p2 - ptx p1) - (pty p2 - pty p1)\<bar> + sqrt 2 * \<bar>ptx p2 - ptx p1\<bar>"
  "len (tryCandidates p1 p2 ! 3) = \<bar>(ptx p2 - ptx p1) + (pty p2 - pty p1)\<bar> + sqrt 2 * \<bar>ptx p2 - ptx p1\<bar>"
  by (simp_all add: tryCandidates_def tryPath_def Let_def hypot_zero_r hypot_zero_l hypot_diag abs_minus_commute)

lemma exists_valid:
  assumes "\<not> aligned p1 p2"
  shows "\<exists>c \<in> set (tryCandidates p1 p2). len c < hypot (ptx p2 - ptx p1) (pty p2 - pty p1) * 1.5"
proof -
  define dx where "dx = ptx p2 - ptx p1"
  define dy where "dy = pty p2 - pty p1"
  have A: "1 \<le> \<bar>dx\<bar>" and B: "1 \<le> \<bar>dy\<bar>"
    using assms by (auto simp: aligned_def dx_def dy_def)
  have len8: "length (tryCandidates p1 p2) = 8" by (simp add: tryCandidates_def Let_def)
  have mem: "tryCandidates p1 p2 ! 0 \<in> set (tryCandidates p1 p2)"
    "tryCandidates p1 p2 ! Suc 0 \<in> set (tryCandidates p1 p2)"
    "tryCandidates p1 p2 ! 2 \<in> set (tryCandidates p1 p2)"
    "tryCandidates p1 p2 ! 3 \<in> set (tryCandidates p1 p2)"
    using len8 by simp_all
  have h: "hypot dx dy = sqrt (\<bar>dx\<bar>\<^sup>2 + \<bar>dy\<bar>\<^sup>2)" by (simp add: hypot_def)
  have h': "hypot dx dy = sqrt (\<bar>dy\<bar>\<^sup>2 + \<bar>dx\<bar>\<^sup>2)" by (simp add: hypot_def add.commute)
  show ?thesis
  proof (cases "\<bar>dy\<bar> \<le> \<bar>dx\<bar>")
    case True
    then have bnd: "\<bar>dx\<bar> - \<bar>dy\<bar> + sqrt 2 * \<bar>dy\<bar> < hypot dx dy * 1.5"
      using elbow_bound[of "\<bar>dy\<bar>" "\<bar>dx\<bar>"] B h by simp
    have "\<bar>dx - dy\<bar> = \<bar>dx\<bar> - \<bar>dy\<bar> \<or> \<bar>dx + dy\<bar> = \<bar>dx\<bar> - \<bar>dy\<bar>" using True by linarith
    then show ?thesis
    proof
      assume "\<bar>dx - dy\<bar> = \<bar>dx\<bar> - \<bar>dy\<bar>"
      then have "len (tryCandidates p1 p2 ! 0) < hypot dx dy * 1.5"
        using bnd by (simp add: len_first_pair dx_def dy_def)
      then show ?thesis using mem(1) unfolding dx_def dy_def by blast
    next
      assume "\<bar>dx + dy\<bar> = \<bar>dx\<bar> - \<bar>dy\<bar>"
      then have "len (tryCandidates p1 p2 ! Suc 0) < hypot dx dy * 1.5"
        using bnd by (simp add: len_first_pair dx_def dy_def)
      then show ?thesis using mem(2) unfolding dx_def dy_def by blast
    qed
  next
    case False
    then have bnd: "\<bar>dy\<bar> - \<bar>dx\<bar> + sqrt 2 * \<bar>dx\<bar> < hypot dx dy * 1.5"
      using elbow_bound[of "\<bar>dx\<bar>" "\<bar>dy\<bar>"] A h' by simp
    have "\<bar>dx - dy\<bar> = \<bar>dy\<bar> - \<bar>dx\<bar> \<or> \<bar>dx + dy\<bar> = \<bar>dy\<bar> - \<bar>dx\<bar>" using False by linarith
    then show ?thesis
    proof
      assume "\<bar>dx - dy\<bar> = \<bar>dy\<bar> - \<bar>dx\<bar>"
      then have "len (tryCandidates p1 p2 ! 2) < hypot dx dy * 1.5"
        using bnd by (simp add: len_first_pair dx_def dy_def)
      then show ?thesis using mem(3) unfolding dx_def dy_def by blast
    next
      assume "\<bar>dx + dy\<bar> = \<bar>dy\<bar> - \<bar>dx\<bar>"
      then have "len (tryCandidates p1 p2 ! 3) < hypot dx dy * 1.5"
        using bnd by (simp add: len_first_pair dx_def dy_def)
      then show ?thesis using mem(4) unfolding dx_def dy_def by blast
    qed
  qed
qed






lemma octolinear_aligned: "octolinear p1 p2 \<Longrightarrow> aligned p1 p2"
  by (auto simp: octolinear_def aligned_def)


lemma hd_filter_sorted:
  "sorted (map f xs) \<Longrightarrow> x \<in> set xs \<Longrightarrow> P x \<Longrightarrow> f (hd (filter P xs)) \<le> (f x :: real)"
  by (induction xs) auto

lemma hd_filter_in: "filter P xs \<noteq> [] \<Longrightarrow> hd (filter P xs) \<in> set xs \<and> P (hd (filter P xs))"
  using hd_in_set[of "filter P xs"] by simp

lemma selectRoute_empty:
  "filter (\<lambda>c. len c < direct * 1.5) cs = [] \<Longrightarrow> selectRoute p1 p2 alternate direct cs = Some [p1, p2]"
  by (simp add: selectRoute_def)

lemma selectRoute_result:
  assumes ne: "filter (\<lambda>c. len c < direct * 1.5) cs \<noteq> []"
  shows "\<exists>b. selectRoute p1 p2 alternate direct cs = Some (points b)
            \<and> b \<in> set cs \<and> len b < direct * 1.5
            \<and> (\<forall>c \<in> set cs. len c < direct * 1.5 \<and> horizontalFirst c = (\<not> alternate)
                   \<and> (\<forall>d \<in> set cs. len d < direct * 1.5 \<longrightarrow> len c \<le> len d)
                 \<longrightarrow> horizontalFirst b = (\<not> alternate) \<and> len b = len c)"
proof -
  define valid where "valid = filter (\<lambda>c. len c < direct * 1.5) cs"
  define srt where "srt = sort_by lenCmp valid"
  have srt_key: "srt = sort_key len valid" by (simp add: srt_def sort_by_lenCmp)
  have set_srt: "set srt = set valid" by (simp add: srt_key)
  have sorted_srt: "sorted (map len srt)" by (simp add: srt_key)
  have "srt \<noteq> []" using ne set_srt valid_def by (metis set_empty)
  then obtain c0 rest where c0: "srt = c0 # rest" by (cases srt) auto
  have c0_min: "\<forall>d \<in> set valid. len c0 \<le> len d"
    using sorted_srt set_srt c0 by auto
  have c0_in: "c0 \<in> set valid" using set_srt c0 by auto
  define best where "best = filter (\<lambda>c. \<bar>len c - len c0\<bar> < 1) srt"
  have c0_best: "c0 \<in> set best" using c0 by (simp add: best_def)
  define pref where "pref = (\<lambda>c::candidate. horizontalFirst c = (\<not> alternate))"
  define fin where "fin = sort_by (familyCmp alternate) best"
  have fin_eq: "fin = filter pref best @ filter (\<lambda>c. horizontalFirst c = alternate) best"
    by (simp add: fin_def pref_def sort_by_family)
  have set_fin: "set fin = set best" by (auto simp: fin_eq pref_def)
  have "fin \<noteq> []" using c0_best set_fin by (metis empty_iff set_empty)
  then obtain b bs where b: "fin = b # bs" by (cases fin) auto
  have res: "selectRoute p1 p2 alternate direct cs = Some (points b)"
  proof -
    have "selectRoute p1 p2 alternate direct cs = (case fin of [] \<Rightarrow> None | b # bs \<Rightarrow> Some (points b))"
      unfolding selectRoute_def fin_def best_def srt_def valid_def
      using ne c0[unfolded srt_def valid_def] by (simp add: Let_def del: filter.simps)
    then show ?thesis using b by simp
  qed
  have b_best: "b \<in> set best" using b set_fin by (metis list.set_intros(1))
  then have b_valid: "b \<in> set valid" using set_srt by (auto simp: best_def)
  have tie: "horizontalFirst b = (\<not> alternate) \<and> len b = len c"
    if c: "c \<in> set cs" "len c < direct * 1.5" "horizontalFirst c = (\<not> alternate)"
      "\<forall>d \<in> set cs. len d < direct * 1.5 \<longrightarrow> len c \<le> len d" for c
  proof -
    have cv: "c \<in> set valid" using c(1,2) by (simp add: valid_def)
    have "len c \<le> len c0" using c(4) c0_in by (simp add: valid_def)
    moreover have "len c0 \<le> len c" using c0_min cv by blast
    ultimately have lc: "len c = len c0" by simp
    have near: "\<bar>len c - len c0\<bar> < 1" using lc by simp
    have filt: "filter pref best = filter (\<lambda>d. \<bar>len d - len c0\<bar> < 1 \<and> pref d) srt"
      by (simp add: best_def)
    have cin: "c \<in> set (filter (\<lambda>d. \<bar>len d - len c0\<bar> < 1 \<and> pref d) srt)"
      using cv set_srt near c(3) by (simp add: pref_def)
    then have fne: "filter pref best \<noteq> []" using filt by (metis empty_iff set_empty)
    then have bhd: "b = hd (filter (\<lambda>d. \<bar>len d - len c0\<bar> < 1 \<and> pref d) srt)"
      using b fin_eq filt by (metis hd_append2 list.sel(1))
    have "pref b" using bhd hd_filter_in[of "\<lambda>d. \<bar>len d - len c0\<bar> < 1 \<and> pref d" srt] fne filt by simp
    moreover have "len b \<le> len c"
      unfolding bhd using sorted_srt cv set_srt near c(3)
      by (intro hd_filter_sorted) (simp_all add: pref_def)
    moreover have "len c0 \<le> len b" using c0_min b_valid by blast
    ultimately show ?thesis using lc by (simp add: pref_def)
  qed
  show ?thesis
    using res b_valid tie unfolding valid_def by (intro exI[of _ b]) auto
qed


lemma router_unaligned:
  "\<not> aligned p1 p2 \<Longrightarrow>
   getOctolinearSegment p1 p2 alternate
     = selectRoute p1 p2 alternate (hypot (ptx p2 - ptx p1) (pty p2 - pty p1)) (tryCandidates p1 p2)"
  by (simp add: aligned_def getOctolinearSegment_def Let_def)

lemma valid_nonempty:
  assumes "\<not> aligned p1 p2"
  shows "filter (\<lambda>c. len c < hypot (ptx p2 - ptx p1) (pty p2 - pty p1) * 1.5) (tryCandidates p1 p2) \<noteq> []"
  using exists_valid[OF assms] by (auto simp: filter_empty_conv)


lemma router_picks_candidate:
  assumes "\<not> aligned p1 p2"
  shows "\<exists>b \<in> set (tryCandidates p1 p2). getOctolinearSegment p1 p2 alternate = Some (points b)"
  using selectRoute_result[OF valid_nonempty[OF assms], of p1 p2 alternate]
    router_unaligned[OF assms, of alternate] by auto

lemma router_total:
  "\<exists>ps. getOctolinearSegment p1 p2 alternate = Some ps \<and> 2 \<le> length ps \<and> length ps \<le> 3
        \<and> hd ps = p1 \<and> last ps = p2"
proof (cases "aligned p1 p2")
  case True
  then have "getOctolinearSegment p1 p2 alternate = Some [p1, p2]"
    by (simp add: aligned_def getOctolinearSegment_def Let_def)
  then show ?thesis by simp
next
  case False
  obtain b where b: "b \<in> set (tryCandidates p1 p2)"
      "getOctolinearSegment p1 p2 alternate = Some (points b)"
    using router_picks_candidate[OF False] by blast
  show ?thesis
    using tryCandidates_shape[OF b(1)] b(2) by auto
qed

subsection \<open>The router at a diagonal pair, evaluated\<close>




subsection \<open>Rounding to binary64\<close>

lemma roundTiesToEven_int: "roundTiesToEven (of_int k) = k"
  by (simp add: roundTiesToEven_def)

lemma roundTiesToEven_near: "\<bar>of_int (roundTiesToEven x) - x\<bar> \<le> 1 / 2"
  unfolding roundTiesToEven_def Let_def by (auto; linarith)

lemma binary64_0: "binary64 0 = 0"
  by (simp add: binary64_def)

lemma powr_powi: "(2::real) powr (of_int k) = 2 powi k"
  by (simp add: powr_real_of_int')

lemma powr_powi1: "(2::real) powr (of_int k + 1) = 2 powi (k + 1)"
  using powr_powi[of "k + 1"] by simp

lemma powi_less_exp: "(2::real) powi a < 2 powi b \<Longrightarrow> a < b"
  using power_int_increasing[of b a "2::real"] by (cases "a < b") auto

lemma binary64_eval:
  assumes "2 powi e \<le> \<bar>x\<bar>" "\<bar>x\<bar> < 2 powi (e + 1)"
  shows "binary64 x = of_int (roundTiesToEven (x / 2 powi (e - 52))) * 2 powi (e - 52)"
proof -
  have pos: "0 < \<bar>x\<bar>" using assms(1) by (smt (verit) zero_less_power_int)
  have "\<lfloor>log 2 \<bar>x\<bar>\<rfloor> = e"
    using assms pos by (simp add: floor_log_eq_powr_iff powr_powi powr_powi1)
  then show ?thesis using pos by (simp add: binary64_def Let_def)
qed

lemma exponent_bounds:
  assumes "x \<noteq> 0"
  shows "2 powi \<lfloor>log 2 \<bar>x\<bar>\<rfloor> \<le> \<bar>x\<bar>" "\<bar>x\<bar> < 2 powi (\<lfloor>log 2 \<bar>x\<bar>\<rfloor> + 1)"
proof -
  have pos: "0 < \<bar>x\<bar>" using assms by simp
  have "\<lfloor>log 2 \<bar>x\<bar>\<rfloor> = \<lfloor>log 2 \<bar>x\<bar>\<rfloor>" ..
  then have "2 powr \<lfloor>log 2 \<bar>x\<bar>\<rfloor> \<le> \<bar>x\<bar> \<and> \<bar>x\<bar> < 2 powr (\<lfloor>log 2 \<bar>x\<bar>\<rfloor> + 1)"
    using floor_log_eq_powr_iff[of "\<bar>x\<bar>" 2 "\<lfloor>log 2 \<bar>x\<bar>\<rfloor>"] pos by simp
  then show "2 powi \<lfloor>log 2 \<bar>x\<bar>\<rfloor> \<le> \<bar>x\<bar>" "\<bar>x\<bar> < 2 powi (\<lfloor>log 2 \<bar>x\<bar>\<rfloor> + 1)"
    by (simp_all add: powr_powi powr_powi1)
qed

lemma binary64_error: "\<bar>binary64 x - x\<bar> \<le> \<bar>x\<bar> / 2 ^ 53"
proof (cases "x = 0")
  case True
  then show ?thesis by (simp add: binary64_0)
next
  case False
  define e where "e = \<lfloor>log 2 \<bar>x\<bar>\<rfloor>"
  define ulp :: real where "ulp = 2 powi (e - 52)"
  have ulp: "0 < ulp" by (simp add: ulp_def zero_less_power_int)
  have b: "binary64 x = of_int (roundTiesToEven (x / ulp)) * ulp"
    using False by (simp add: binary64_def Let_def e_def ulp_def)
  have "binary64 x - x = (of_int (roundTiesToEven (x / ulp)) - x / ulp) * ulp"
    unfolding b using ulp by (simp add: field_simps)
  then have "\<bar>binary64 x - x\<bar> = \<bar>of_int (roundTiesToEven (x / ulp)) - x / ulp\<bar> * ulp"
    using ulp by (simp add: abs_mult)
  also have "\<dots> \<le> 1 / 2 * ulp"
    using roundTiesToEven_near[of "x / ulp"] ulp by (intro mult_right_mono) simp_all
  also have "\<dots> = 2 powi e / 2 ^ 53"
    unfolding ulp_def by (simp add: power_int_diff)
  also have "\<dots> \<le> \<bar>x\<bar> / 2 ^ 53"
    using exponent_bounds(1)[OF False] by (simp add: e_def divide_right_mono)
  finally show ?thesis .
qed

lemma binary64_int:
  assumes "\<bar>m\<bar> < 2 ^ 53"
  shows "binary64 (of_int m) = of_int m"
proof (cases "m = 0")
  case True
  then show ?thesis by (simp add: binary64_0)
next
  case False
  define e where "e = \<lfloor>log 2 \<bar>of_int m :: real\<bar>\<rfloor>"
  have nz: "(of_int m :: real) \<noteq> 0" using False by simp
  have lo: "2 powi e \<le> \<bar>of_int m :: real\<bar>" and hi: "\<bar>of_int m :: real\<bar> < 2 powi (e + 1)"
    using exponent_bounds[OF nz] by (simp_all add: e_def)
  have "1 \<le> \<bar>of_int m :: real\<bar>" using False by (simp flip: of_int_abs)
  then have "(2::real) powi 0 < 2 powi (e + 1)" using hi by simp
  then have e0: "0 \<le> e" using powi_less_exp[of 0 "e + 1"] by simp
  have "real_of_int \<bar>m\<bar> < real_of_int (2 ^ 53)" using assms by (simp only: of_int_less_iff)
  then have "\<bar>of_int m :: real\<bar> < 2 ^ 53" by simp
  then have "(2::real) powi e < 2 powi 53" using lo by simp
  then have e52: "e \<le> 52" using powi_less_exp[of e 53] by simp
  define k where "k = nat (52 - e)"
  have ulp: "(2::real) powi (e - 52) = 1 / 2 ^ k"
    using e52 by (simp add: k_def power_int_def field_simps)
  have "of_int m / (2 powi (e - 52) :: real) = of_int (m * 2 ^ k)"
    by (simp add: ulp)
  then have "roundTiesToEven (of_int m / 2 powi (e - 52)) = m * 2 ^ k"
    using roundTiesToEven_int by metis
  then show ?thesis
    unfolding binary64_eval[OF lo hi] by (simp add: ulp)
qed

lemma binary64_Ints: "x \<in> \<int> \<Longrightarrow> \<bar>x\<bar> \<le> 2 ^ 52 \<Longrightarrow> binary64 x = x"
proof -
  assume "x \<in> \<int>" and b: "\<bar>x\<bar> \<le> 2 ^ 52"
  then obtain m where m: "x = of_int m" by (auto elim: Ints_cases)
  have "real_of_int \<bar>m\<bar> \<le> real_of_int (2 ^ 52)" using b m by simp
  then have "\<bar>m\<bar> \<le> 2 ^ 52" by (simp only: of_int_le_iff)
  then have "\<bar>m\<bar> < 2 ^ 53" by simp
  then show ?thesis using binary64_int m by simp
qed

lemma binary64_bounds:
  assumes "0 \<le> x"
  shows "x * (999 / 1000) \<le> binary64 x" "binary64 x \<le> x * (1001 / 1000)"
proof -
  have "\<bar>binary64 x - x\<bar> \<le> x / 2 ^ 53" using binary64_error[of x] assms by simp
  moreover have "x / 2 ^ 53 \<le> x / 1000" using assms by (intro divide_left_mono) simp_all
  ultimately have "\<bar>binary64 x - x\<bar> \<le> x / 1000" by linarith
  then show "x * (999 / 1000) \<le> binary64 x" "binary64 x \<le> x * (1001 / 1000)" by linarith+
qed

lemma binary64_abs_le: "\<bar>binary64 x\<bar> \<le> \<bar>x\<bar> * (1001 / 1000)"
proof -
  have "\<bar>x\<bar> / 2 ^ 53 \<le> \<bar>x\<bar> / 1000" by (intro divide_left_mono) simp_all
  then show ?thesis using binary64_error[of x] by linarith
qed

lemma near_lens:
  assumes "lo \<le> x" "x \<le> up" "lo' \<le> y" "y \<le> up'" "up - lo' \<le> 9 / 10" "up' - lo \<le> 9 / 10"
  shows "\<bar>binary64 (x - y)\<bar> < 1"
proof -
  define d where "d = \<bar>x - y\<bar>"
  define r where "r = \<bar>binary64 (x - y)\<bar>"
  have "d \<le> 9 / 10" unfolding d_def using assms by linarith
  moreover have "r \<le> d * (1001 / 1000)" unfolding d_def r_def by (rule binary64_abs_le)
  ultimately have "r < 1" by simp
  then show ?thesis by (simp add: r_def)
qed

subsection \<open>The router in rounded arithmetic\<close>

lemma exact_router:
  "getOctolinearSegmentR (\<lambda>x. x) hypot p1 p2 alternate = getOctolinearSegment p1 p2 alternate"
proof -
  have c: "lenCmpR (\<lambda>x. x) = lenCmp" by (simp add: fun_eq_iff lenCmpR_def lenCmp_def)
  have t: "tryCandidatesR (\<lambda>x. x) hypot p1 p2 = tryCandidates p1 p2"
    by (simp add: tryCandidatesR_def tryCandidates_def tryPathR_def tryPath_def)
  have s: "selectRouteR (\<lambda>x. x) p1 p2 alternate direct cs = selectRoute p1 p2 alternate direct cs"
    for direct cs
    unfolding selectRouteR_def selectRoute_def c ..
  show ?thesis unfolding getOctolinearSegmentR_def getOctolinearSegment_def t s ..
qed

lemma set_insert_by: "set (insert_by cmp a bs) = insert a (set bs)"
  by (induction bs) auto

lemma set_sort_by: "set (sort_by cmp xs) = set xs"
  by (induction xs) (simp_all add: sort_by_def set_insert_by)

lemma hd_sort_by_in: "xs \<noteq> [] \<Longrightarrow> sort_by cmp xs = c # rest \<Longrightarrow> c \<in> set xs"
  using set_sort_by[of cmp xs] by (metis list.set_intros(1))

lemma selectRouteR_picks:
  assumes z: "rnd 0 = 0"
    and ne: "filter (\<lambda>c. len c < rnd (direct * 1.5)) cs \<noteq> []"
  shows "\<exists>b \<in> set cs. selectRouteR rnd p1 p2 alternate direct cs = Some (points b)"
proof -
  define valid where "valid = filter (\<lambda>c. len c < rnd (direct * 1.5)) cs"
  define srt where "srt = sort_by (lenCmpR rnd) valid"
  have "set srt = set valid" by (simp add: srt_def set_sort_by)
  then have "srt \<noteq> []" using ne valid_def by (metis set_empty)
  then obtain c0 rest where c0: "srt = c0 # rest" by (cases srt) auto
  define best where "best = filter (\<lambda>c. \<bar>rnd (len c - len c0)\<bar> < 1) srt"
  have c0_best: "c0 \<in> set best" using c0 z by (simp add: best_def)
  define fin where "fin = sort_by (familyCmp alternate) best"
  have set_fin: "set fin = set best" by (simp add: fin_def set_sort_by)
  then have "fin \<noteq> []" using c0_best by (metis empty_iff set_empty)
  then obtain b bs where b: "fin = b # bs" by (cases fin) auto
  have "selectRouteR rnd p1 p2 alternate direct cs = (case fin of [] \<Rightarrow> None | b # bs \<Rightarrow> Some (points b))"
    unfolding selectRouteR_def fin_def best_def srt_def valid_def
    using ne c0[unfolded srt_def valid_def] by (simp add: Let_def del: filter.simps)
  then have res: "selectRouteR rnd p1 p2 alternate direct cs = Some (points b)" using b by simp
  have "b \<in> set best" using b set_fin by (metis list.set_intros(1))
  then have "b \<in> set cs" using \<open>set srt = set valid\<close> by (auto simp: best_def valid_def)
  then show ?thesis using res by blast
qed




lemma selectRouteR_preferred:
  assumes z: "rnd 0 = 0"
    and c0: "c0 \<in> set cs" "len c0 < rnd (direct * 1.5)" "horizontalFirst c0 = (\<not> alternate)"
    and near: "\<And>c. c \<in> set cs \<Longrightarrow> len c < rnd (direct * 1.5) \<Longrightarrow> \<bar>rnd (len c0 - len c)\<bar> < 1"
    and uniq: "\<And>c. c \<in> set cs \<Longrightarrow> len c < rnd (direct * 1.5) \<Longrightarrow> horizontalFirst c = (\<not> alternate)
                 \<Longrightarrow> points c = points c0"
  shows "selectRouteR rnd p1 p2 alternate direct cs = Some (points c0)"
proof -
  define valid where "valid = filter (\<lambda>c. len c < rnd (direct * 1.5)) cs"
  define pref where "pref = (\<lambda>c::candidate. horizontalFirst c = (\<not> alternate))"
  have c0v: "c0 \<in> set valid" using c0 by (simp add: valid_def)
  then have ne: "valid \<noteq> []" by auto
  define srt where "srt = sort_by (lenCmpR rnd) valid"
  have set_srt: "set srt = set valid" by (simp add: srt_def set_sort_by)
  then have "srt \<noteq> []" using ne by (metis set_empty)
  then obtain m rest where m: "srt = m # rest" by (cases srt) auto
  have mv: "m \<in> set valid" using set_srt m by (metis list.set_intros(1))
  define best where "best = filter (\<lambda>c. \<bar>rnd (len c - len m)\<bar> < 1) srt"
  have "\<bar>rnd (len c0 - len m)\<bar> < 1" using near[of m] mv by (simp add: valid_def)
  then have c0b: "c0 \<in> set best" using c0v set_srt by (simp add: best_def)
  define fin where "fin = sort_by (familyCmp alternate) best"
  have fin_eq: "fin = filter pref best @ filter (\<lambda>c. horizontalFirst c = alternate) best"
    by (simp add: fin_def pref_def sort_by_family)
  have "c0 \<in> set (filter pref best)" using c0b c0(3) by (simp add: pref_def)
  then obtain b bs where b: "filter pref best = b # bs" by (cases "filter pref best") auto
  have "b \<in> set (filter pref best)" unfolding b by simp
  then have "b \<in> set valid" "pref b" using set_srt by (auto simp: best_def)
  then have pts: "points b = points c0" using uniq[of b] by (simp add: valid_def pref_def)
  have "selectRouteR rnd p1 p2 alternate direct cs = (case fin of [] \<Rightarrow> None | b # bs \<Rightarrow> Some (points b))"
    unfolding selectRouteR_def fin_def best_def srt_def valid_def
    using ne[unfolded valid_def] m[unfolded srt_def valid_def] by (simp add: Let_def del: filter.simps)
  then show ?thesis using fin_eq b pts by simp
qed

lemma hypot_nonneg: "0 \<le> hypot a b"
  by (simp add: hypot_def)

lemma accurate_bounds:
  assumes "accurate hyp"
  shows "hypot a b * (999 / 1000) \<le> hyp a b" "hyp a b \<le> hypot a b * (1001 / 1000)"
proof -
  have "\<bar>hyp a b - hypot a b\<bar> \<le> hypot a b / 1000" using assms by (simp add: accurate_def)
  then show "hypot a b * (999 / 1000) \<le> hyp a b" "hyp a b \<le> hypot a b * (1001 / 1000)" by linarith+
qed

lemma accurate_hypot64: "accurate hypot64"
  unfolding accurate_def hypot64_def
proof (intro allI)
  fix a b
  have "\<bar>binary64 (hypot a b) - hypot a b\<bar> \<le> hypot a b / 2 ^ 53"
    using binary64_error[of "hypot a b"] hypot_nonneg[of a b] by simp
  moreover have "hypot a b / 2 ^ 53 \<le> hypot a b / 1000"
    using hypot_nonneg[of a b] by (intro divide_left_mono) simp_all
  ultimately show "\<bar>binary64 (hypot a b) - hypot a b\<bar> \<le> hypot a b / 1000" by linarith
qed

lemma elbow_bound_tight:
  assumes "0 < b" "b \<le> a"
  shows "a - b + sqrt 2 * b \<le> sqrt (a\<^sup>2 + b\<^sup>2) * (5 / 4)"
proof -
  have "sqrt 2 * b \<le> 3 / 2 * b" using sqrt2_le assms by (simp add: mult_right_mono)
  then have le: "a - b + sqrt 2 * b \<le> a + b / 2" by simp
  have "(a + b / 2)\<^sup>2 \<le> (25 / 16) * (a\<^sup>2 + b\<^sup>2)"
  proof -
    have pos: "0 \<le> (a * (3 / 4) - b * (2 / 3))\<^sup>2 + b\<^sup>2 * (125 / 144)" by simp
    have "(a * (3 / 4) - b * (2 / 3))\<^sup>2 + b\<^sup>2 * (125 / 144)
          = (25 / 16) * (a\<^sup>2 + b\<^sup>2) - (a + b / 2)\<^sup>2"
      by (simp add: power2_eq_square algebra_simps)
    with pos show ?thesis by linarith
  qed
  then have "a + b / 2 \<le> sqrt ((25 / 16) * (a\<^sup>2 + b\<^sup>2))" by (rule real_le_rsqrt)
  also have "\<dots> = sqrt (a\<^sup>2 + b\<^sup>2) * (5 / 4)"
  proof -
    have "sqrt (25 / 16 :: real) = 5 / 4" by (rule real_sqrt_unique) (simp_all add: power2_eq_square)
    moreover have "sqrt ((25 / 16) * (a\<^sup>2 + b\<^sup>2)) = sqrt (25 / 16) * sqrt (a\<^sup>2 + b\<^sup>2)"
      by (rule real_sqrt_mult)
    ultimately show ?thesis by simp
  qed
  finally show ?thesis using le by linarith
qed

lemma exists_short:
  assumes "\<not> aligned p1 p2"
  shows "\<exists>c \<in> set (tryCandidates p1 p2). len c \<le> hypot (ptx p2 - ptx p1) (pty p2 - pty p1) * (5 / 4)"
proof -
  define dx where "dx = ptx p2 - ptx p1"
  define dy where "dy = pty p2 - pty p1"
  have A: "1 \<le> \<bar>dx\<bar>" and B: "1 \<le> \<bar>dy\<bar>"
    using assms by (auto simp: aligned_def dx_def dy_def)
  have len8: "length (tryCandidates p1 p2) = 8" by (simp add: tryCandidates_def Let_def)
  have mem: "tryCandidates p1 p2 ! 0 \<in> set (tryCandidates p1 p2)"
    "tryCandidates p1 p2 ! Suc 0 \<in> set (tryCandidates p1 p2)"
    "tryCandidates p1 p2 ! 2 \<in> set (tryCandidates p1 p2)"
    "tryCandidates p1 p2 ! 3 \<in> set (tryCandidates p1 p2)"
    using len8 by simp_all
  have h: "hypot dx dy = sqrt (\<bar>dx\<bar>\<^sup>2 + \<bar>dy\<bar>\<^sup>2)" by (simp add: hypot_def)
  have h': "hypot dx dy = sqrt (\<bar>dy\<bar>\<^sup>2 + \<bar>dx\<bar>\<^sup>2)" by (simp add: hypot_def add.commute)
  show ?thesis
  proof (cases "\<bar>dy\<bar> \<le> \<bar>dx\<bar>")
    case True
    then have bnd: "\<bar>dx\<bar> - \<bar>dy\<bar> + sqrt 2 * \<bar>dy\<bar> \<le> hypot dx dy * (5 / 4)"
      using elbow_bound_tight[of "\<bar>dy\<bar>" "\<bar>dx\<bar>"] B h by simp
    have "\<bar>dx - dy\<bar> = \<bar>dx\<bar> - \<bar>dy\<bar> \<or> \<bar>dx + dy\<bar> = \<bar>dx\<bar> - \<bar>dy\<bar>" using True by linarith
    then show ?thesis
    proof
      assume "\<bar>dx - dy\<bar> = \<bar>dx\<bar> - \<bar>dy\<bar>"
      then have "len (tryCandidates p1 p2 ! 0) \<le> hypot dx dy * (5 / 4)"
        using bnd by (simp add: len_first_pair dx_def dy_def)
      then show ?thesis using mem(1) unfolding dx_def dy_def by blast
    next
      assume "\<bar>dx + dy\<bar> = \<bar>dx\<bar> - \<bar>dy\<bar>"
      then have "len (tryCandidates p1 p2 ! Suc 0) \<le> hypot dx dy * (5 / 4)"
        using bnd by (simp add: len_first_pair dx_def dy_def)
      then show ?thesis using mem(2) unfolding dx_def dy_def by blast
    qed
  next
    case False
    then have bnd: "\<bar>dy\<bar> - \<bar>dx\<bar> + sqrt 2 * \<bar>dx\<bar> \<le> hypot dx dy * (5 / 4)"
      using elbow_bound_tight[of "\<bar>dx\<bar>" "\<bar>dy\<bar>"] A h' by simp
    have "\<bar>dx - dy\<bar> = \<bar>dy\<bar> - \<bar>dx\<bar> \<or> \<bar>dx + dy\<bar> = \<bar>dy\<bar> - \<bar>dx\<bar>" using False by linarith
    then show ?thesis
    proof
      assume "\<bar>dx - dy\<bar> = \<bar>dy\<bar> - \<bar>dx\<bar>"
      then have "len (tryCandidates p1 p2 ! 2) \<le> hypot dx dy * (5 / 4)"
        using bnd by (simp add: len_first_pair dx_def dy_def)
      then show ?thesis using mem(3) unfolding dx_def dy_def by blast
    next
      assume "\<bar>dx + dy\<bar> = \<bar>dy\<bar> - \<bar>dx\<bar>"
      then have "len (tryCandidates p1 p2 ! 3) \<le> hypot dx dy * (5 / 4)"
        using bnd by (simp add: len_first_pair dx_def dy_def)
      then show ?thesis using mem(4) unfolding dx_def dy_def by blast
    qed
  qed
qed

lemma hyp_lower:
  assumes "accurate hyp" "0 \<le> lo" "lo\<^sup>2 \<le> a\<^sup>2 + b\<^sup>2"
  shows "lo * (999 / 1000) \<le> hyp a b"
proof -
  have "lo \<le> hypot a b" unfolding hypot_def using assms(3) by (rule real_le_rsqrt)
  then show ?thesis using accurate_bounds(1)[OF assms(1), of a b] by simp
qed

lemma hyp_upper:
  assumes "accurate hyp" "0 \<le> up" "a\<^sup>2 + b\<^sup>2 \<le> up\<^sup>2"
  shows "hyp a b \<le> up * (1001 / 1000)"
proof -
  have "hypot a b \<le> up" unfolding hypot_def using assms(2,3) by (rule real_le_lsqrt)
  then show ?thesis using accurate_bounds(2)[OF assms(1), of a b] by simp
qed

lemma len_lower:
  assumes acc: "accurate hyp"
    and "0 \<le> lo1" "lo1\<^sup>2 \<le> a\<^sup>2 + b\<^sup>2" "0 \<le> lo2" "lo2\<^sup>2 \<le> c\<^sup>2 + d\<^sup>2"
  shows "(lo1 + lo2) * (998 / 1000) \<le> binary64 (hyp a b + hyp c d)"
proof -
  have 1: "lo1 * (999 / 1000) \<le> hyp a b" using assms by (intro hyp_lower)
  have 2: "lo2 * (999 / 1000) \<le> hyp c d" using assms by (intro hyp_lower)
  have "0 \<le> hyp a b + hyp c d" using 1 2 assms(2,4) by simp
  then have "(hyp a b + hyp c d) * (999 / 1000) \<le> binary64 (hyp a b + hyp c d)"
    by (rule binary64_bounds(1))
  then show ?thesis using 1 2 assms(2,4) by simp
qed

lemma len_upper:
  assumes acc: "accurate hyp"
    and "0 \<le> up1" "a\<^sup>2 + b\<^sup>2 \<le> up1\<^sup>2" "0 \<le> up2" "c\<^sup>2 + d\<^sup>2 \<le> up2\<^sup>2"
  shows "binary64 (hyp a b + hyp c d) \<le> (up1 + up2) * (1003 / 1000)"
proof -
  have 1: "hyp a b \<le> up1 * (1001 / 1000)" using assms by (intro hyp_upper)
  have 2: "hyp c d \<le> up2 * (1001 / 1000)" using assms by (intro hyp_upper)
  have n1: "0 \<le> hyp a b" using accurate_bounds(1)[OF acc, of a b] hypot_nonneg[of a b] by simp
  have n2: "0 \<le> hyp c d" using accurate_bounds(1)[OF acc, of c d] hypot_nonneg[of c d] by simp
  have "binary64 (hyp a b + hyp c d) \<le> (hyp a b + hyp c d) * (1001 / 1000)"
    using n1 n2 by (intro binary64_bounds(2)) simp
  then show ?thesis using 1 2 assms(2,4) by simp
qed

lemma threshold_lower:
  assumes acc: "accurate hyp" and "0 \<le> lo" "lo\<^sup>2 \<le> a\<^sup>2 + b\<^sup>2"
  shows "lo * (3 / 2) * (998 / 1000) \<le> binary64 (hyp a b * 1.5)"
proof -
  have 1: "lo * (999 / 1000) \<le> hyp a b" using assms by (intro hyp_lower)
  then have "0 \<le> hyp a b * 1.5" using assms(2) by simp
  then have "hyp a b * 1.5 * (999 / 1000) \<le> binary64 (hyp a b * 1.5)"
    by (rule binary64_bounds(1))
  then show ?thesis using 1 assms(2) by simp
qed

lemma threshold_upper:
  assumes acc: "accurate hyp" and "0 \<le> up" "a\<^sup>2 + b\<^sup>2 \<le> up\<^sup>2"
  shows "binary64 (hyp a b * 1.5) \<le> up * (3 / 2) * (1003 / 1000)"
proof -
  have 1: "hyp a b \<le> up * (1001 / 1000)" using assms by (intro hyp_upper)
  have n1: "0 \<le> hyp a b" using accurate_bounds(1)[OF acc, of a b] hypot_nonneg[of a b] by simp
  then have "binary64 (hyp a b * 1.5) \<le> hyp a b * 1.5 * (1001 / 1000)"
    by (intro binary64_bounds(2)) simp
  then show ?thesis using 1 assms(2) by simp
qed

subsection \<open>On the integer grid the router rounds only lengths\<close>

lemma tryPathR_exact:
  assumes "binary64 (ptx mid - ptx p1) = ptx mid - ptx p1"
    and "binary64 (pty mid - pty p1) = pty mid - pty p1"
    and "binary64 (ptx p2 - ptx mid) = ptx p2 - ptx mid"
    and "binary64 (pty p2 - pty mid) = pty p2 - pty mid"
  shows "tryPathR binary64 hyp p1 p2 mid hf
         = \<lparr>points = [p1, mid, p2],
            len = binary64 (hyp (ptx mid - ptx p1) (pty mid - pty p1)
                            + hyp (ptx p2 - ptx mid) (pty p2 - pty mid)),
            horizontalFirst = hf\<rparr>"
  by (simp add: tryPathR_def assms)

lemma grid_candidates:
  assumes "onGrid p1" "onGrid p2"
  shows "tryCandidatesR binary64 hyp p1 p2
         = map (\<lambda>c. c\<lparr>len := binary64 (hyp (ptx (points c ! 1) - ptx p1) (pty (points c ! 1) - pty p1)
                                        + hyp (ptx p2 - ptx (points c ! 1)) (pty p2 - pty (points c ! 1)))\<rparr>)
             (tryCandidates p1 p2)"
proof -
  have i: "ptx p1 \<in> \<int>" "pty p1 \<in> \<int>" "ptx p2 \<in> \<int>" "pty p2 \<in> \<int>"
    using assms by (simp_all add: onGrid_def)
  have b: "\<bar>ptx p1\<bar> \<le> 1125899906842624" "\<bar>pty p1\<bar> \<le> 1125899906842624"
    "\<bar>ptx p2\<bar> \<le> 1125899906842624" "\<bar>pty p2\<bar> \<le> 1125899906842624"
    using assms by (simp_all add: onGrid_def)
  have lo: "- 1125899906842624 \<le> ptx p1" "- 1125899906842624 \<le> pty p1"
    "- 1125899906842624 \<le> ptx p2" "- 1125899906842624 \<le> pty p2"
    and hi: "ptx p1 \<le> 1125899906842624" "pty p1 \<le> 1125899906842624"
    "ptx p2 \<le> 1125899906842624" "pty p2 \<le> 1125899906842624"
    using b by linarith+
  have ex: "binary64 x = x" if "x \<in> \<int>" "- 4503599627370496 \<le> x" "x \<le> 4503599627370496" for x
    using binary64_Ints[of x] that by simp
  show ?thesis
    unfolding tryCandidatesR_def tryCandidates_def Let_def
    using i lo hi by (simp add: tryPathR_def tryPath_def ex binary64_0)
qed

lemma candidate_len_legs:
  "c \<in> set (tryCandidates p1 p2) \<Longrightarrow>
   len c = hypot (ptx (points c ! 1) - ptx p1) (pty (points c ! 1) - pty p1)
           + hypot (ptx p2 - ptx (points c ! 1)) (pty p2 - pty (points c ! 1))"
  by (auto simp: tryCandidates_def tryPath_def Let_def)

lemma hypot_ge_abs: "\<bar>a\<bar> \<le> hypot a b"
  unfolding hypot_def by (rule real_le_rsqrt) simp

lemma grid_test:
  assumes "onGrid p1" "onGrid p2"
  shows "binary64 (ptx p2 - ptx p1) = ptx p2 - ptx p1"
    and "binary64 (pty p2 - pty p1) = pty p2 - pty p1"
    and "binary64 (\<bar>ptx p2 - ptx p1\<bar> - \<bar>pty p2 - pty p1\<bar>) = \<bar>ptx p2 - ptx p1\<bar> - \<bar>pty p2 - pty p1\<bar>"
proof -
  have i: "ptx p1 \<in> \<int>" "pty p1 \<in> \<int>" "ptx p2 \<in> \<int>" "pty p2 \<in> \<int>"
    using assms by (simp_all add: onGrid_def)
  have b: "\<bar>ptx p1\<bar> \<le> 1125899906842624" "\<bar>pty p1\<bar> \<le> 1125899906842624"
    "\<bar>ptx p2\<bar> \<le> 1125899906842624" "\<bar>pty p2\<bar> \<le> 1125899906842624"
    using assms by (simp_all add: onGrid_def)
  have ex: "binary64 x = x" if "x \<in> \<int>" "\<bar>x\<bar> \<le> 4503599627370496" for x
    using binary64_Ints[of x] that by simp
  show "binary64 (ptx p2 - ptx p1) = ptx p2 - ptx p1"
    using i b by (intro ex) auto
  show "binary64 (pty p2 - pty p1) = pty p2 - pty p1"
    using i b by (intro ex) auto
  show "binary64 (\<bar>ptx p2 - ptx p1\<bar> - \<bar>pty p2 - pty p1\<bar>) = \<bar>ptx p2 - ptx p1\<bar> - \<bar>pty p2 - pty p1\<bar>"
    using i b by (intro ex) auto
qed

lemma grid_router_unaligned:
  assumes "onGrid p1" "onGrid p2" "\<not> aligned p1 p2"
  shows "getOctolinearSegmentR binary64 hyp p1 p2 alternate
         = selectRouteR binary64 p1 p2 alternate (hyp (ptx p2 - ptx p1) (pty p2 - pty p1))
             (tryCandidatesR binary64 hyp p1 p2)"
  using assms(3) unfolding getOctolinearSegmentR_def Let_def grid_test[OF assms(1,2)]
  by (simp add: aligned_def)

lemma grid_valid:
  assumes g: "onGrid p1" "onGrid p2" and acc: "accurate hyp" and na: "\<not> aligned p1 p2"
  shows "filter (\<lambda>c. len c < binary64 (hyp (ptx p2 - ptx p1) (pty p2 - pty p1) * 1.5))
           (tryCandidatesR binary64 hyp p1 p2) \<noteq> []"
proof -
  define D where "D = hypot (ptx p2 - ptx p1) (pty p2 - pty p1)"
  define T where "T = binary64 (hyp (ptx p2 - ptx p1) (pty p2 - pty p1) * 1.5)"
  obtain c where c: "c \<in> set (tryCandidates p1 p2)" "len c \<le> D * (5 / 4)"
    using exists_short[OF na] unfolding D_def by blast
  define m where "m = points c ! 1"
  define H where "H = hyp (ptx m - ptx p1) (pty m - pty p1) + hyp (ptx p2 - ptx m) (pty p2 - pty m)"
  define cR where "cR = c\<lparr>len := binary64 H\<rparr>"
  have cR_in: "cR \<in> set (tryCandidatesR binary64 hyp p1 p2)"
    unfolding grid_candidates[OF g] cR_def H_def m_def using c(1) by (simp add: image_iff) blast
  have "1 \<le> \<bar>ptx p2 - ptx p1\<bar>" using na by (simp add: aligned_def)
  then have Dpos: "1 \<le> D" using hypot_ge_abs[of "ptx p2 - ptx p1" "pty p2 - pty p1"] by (simp add: D_def)
  have lenc: "len c = hypot (ptx m - ptx p1) (pty m - pty p1) + hypot (ptx p2 - ptx m) (pty p2 - pty m)"
    unfolding m_def by (rule candidate_len_legs[OF c(1)])
  have H_hi: "H \<le> len c * (1001 / 1000)"
    unfolding H_def lenc
    using accurate_bounds(2)[OF acc, of "ptx m - ptx p1" "pty m - pty p1"]
      accurate_bounds(2)[OF acc, of "ptx p2 - ptx m" "pty p2 - pty m"] by (simp add: algebra_simps)
  have H_nonneg: "0 \<le> H"
    unfolding H_def
    using accurate_bounds(1)[OF acc, of "ptx m - ptx p1" "pty m - pty p1"]
      accurate_bounds(1)[OF acc, of "ptx p2 - ptx m" "pty p2 - pty m"]
      hypot_nonneg[of "ptx m - ptx p1" "pty m - pty p1"] hypot_nonneg[of "ptx p2 - ptx m" "pty p2 - pty m"]
    by (simp add: algebra_simps)
  have "len cR \<le> H * (1001 / 1000)" using binary64_bounds(2)[OF H_nonneg] by (simp add: cR_def)
  then have up: "len cR \<le> D * (5 / 4) * (1001 / 1000) * (1001 / 1000)"
    using H_hi c(2) by (simp add: algebra_simps)
  have h_lo: "D * (999 / 1000) \<le> hyp (ptx p2 - ptx p1) (pty p2 - pty p1)"
    unfolding D_def by (rule accurate_bounds(1)[OF acc])
  then have "0 \<le> hyp (ptx p2 - ptx p1) (pty p2 - pty p1) * 1.5" using Dpos by simp
  then have "hyp (ptx p2 - ptx p1) (pty p2 - pty p1) * 1.5 * (999 / 1000) \<le> T"
    unfolding T_def by (rule binary64_bounds(1))
  then have low: "D * (999 / 1000) * 1.5 * (999 / 1000) \<le> T" using h_lo by simp
  have "len cR < T" using up low Dpos by simp
  then show ?thesis using cR_in unfolding T_def by (auto simp: filter_empty_conv)
qed

subsection \<open>The rounded router at a pair off the grid, evaluated\<close>

text \<open>
  The value of \<open>binary64\<close> at every number that the router rounds between \<open>decimalP1\<close>
  and \<open>decimalP2\<close>.
\<close>

lemma b64_0: "binary64 (60) = 60"
  by (subst binary64_eval[where e="5"]) (simp_all add: roundTiesToEven_def Let_def)

lemma b64_1: "binary64 (727781699783072179 / 36028797018963968) = 5685794529555251 / 281474976710656"
  by (subst binary64_eval[where e="4"]) (simp_all add: roundTiesToEven_def Let_def)

lemma b64_2: "binary64 (11202704073084109 / 281474976710656) = 2800676018271027 / 70368744177664"
  by (subst binary64_eval[where e="5"]) (simp_all add: roundTiesToEven_def Let_def)

lemma b64_3: "binary64 (- (727781699783072179 / 36028797018963968)) = - (5685794529555251 / 281474976710656)"
  by (subst binary64_eval[where e="4"]) (simp_all add: roundTiesToEven_def Let_def)

lemma b64_4: "binary64 (22574293132194611 / 281474976710656) = 5643573283048653 / 70368744177664"
  by (subst binary64_eval[where e="6"]) (simp_all add: roundTiesToEven_def Let_def)

lemma b64_5: "binary64 (- 60) = - 60"
  by (subst binary64_eval[where e="5"]) (simp_all add: roundTiesToEven_def Let_def)

lemma b64_6: "binary64 (- (11174556575413043 / 281474976710656)) = - (2793639143853261 / 70368744177664)"
  by (subst binary64_eval[where e="5"]) (simp_all add: roundTiesToEven_def Let_def)

lemma b64_7: "binary64 (22602440629865677 / 281474976710656) = 5650610157466419 / 70368744177664"
  by (subst binary64_eval[where e="6"]) (simp_all add: roundTiesToEven_def Let_def)

lemma b64_8: "binary64 (5685794529555251 / 281474976710656) = 5685794529555251 / 281474976710656"
  by (subst binary64_eval[where e="4"]) (simp_all add: roundTiesToEven_def Let_def)

lemma b64_9: "binary64 (- (5685794529555251 / 281474976710656)) = - (5685794529555251 / 281474976710656)"
  by (subst binary64_eval[where e="4"]) (simp_all add: roundTiesToEven_def Let_def)

lemma b64_10: "binary64 (2165330700839734477 / 36028797018963968) = 8458323050155213 / 140737488355328"
  by (subst binary64_eval[where e="5"]) (simp_all add: roundTiesToEven_def Let_def)

lemma b64_11: "binary64 (- (2158124941435941683 / 36028797018963968)) = - (8430175552484147 / 140737488355328)"
  by (subst binary64_eval[where e="5"]) (simp_all add: roundTiesToEven_def Let_def)

lemma b64_12: "binary64 (2800676018271027 / 70368744177664) = 2800676018271027 / 70368744177664"
  by (subst binary64_eval[where e="5"]) (simp_all add: roundTiesToEven_def Let_def)

lemma b64_13: "binary64 (1421448632388813 / 70368744177664) = 1421448632388813 / 70368744177664"
  by (subst binary64_eval[where e="4"]) (simp_all add: roundTiesToEven_def Let_def)

lemma b64_14: "binary64 (5643573283048653 / 70368744177664) = 5643573283048653 / 70368744177664"
  by (subst binary64_eval[where e="6"]) (simp_all add: roundTiesToEven_def Let_def)

lemma b64_15: "binary64 (- (1421448632388813 / 70368744177664)) = - (1421448632388813 / 70368744177664)"
  by (subst binary64_eval[where e="4"]) (simp_all add: roundTiesToEven_def Let_def)

lemma b64_16: "binary64 (- (1433946121354766029 / 36028797018963968)) = - (5601352036542055 / 140737488355328)"
  by (subst binary64_eval[where e="5"]) (simp_all add: roundTiesToEven_def Let_def)

lemma b64_17: "binary64 (16888498602639361 / 281474976710656) = 60"
  by (subst binary64_eval[where e="5"]) (simp_all add: roundTiesToEven_def Let_def)

lemma b64_18: "binary64 (2889509520920910131 / 36028797018963968) = 5643573283048653 / 70368744177664"
  by (subst binary64_eval[where e="6"]) (simp_all add: roundTiesToEven_def Let_def)

lemma b64_19: "binary64 (- (16888498602639359 / 281474976710656)) = - 60"
  by (subst binary64_eval[where e="5"]) (simp_all add: roundTiesToEven_def Let_def)

lemma b64_20: "binary64 (2161727821137838131 / 36028797018963968) = 60"
  by (subst binary64_eval[where e="5"]) (simp_all add: roundTiesToEven_def Let_def)

lemma b64_21: "binary64 (- (11202704073084109 / 281474976710656)) = - (2800676018271027 / 70368744177664)"
  by (subst binary64_eval[where e="5"]) (simp_all add: roundTiesToEven_def Let_def)

lemma b64_22: "binary64 (- (2161727821137838029 / 36028797018963968)) = - 60"
  by (subst binary64_eval[where e="5"]) (simp_all add: roundTiesToEven_def Let_def)

lemma b64_23: "binary64 (3602879701896397 / 36028797018963968) = 3602879701896397 / 36028797018963968"
  by (subst binary64_eval[where e="-4"]) (simp_all add: roundTiesToEven_def Let_def)

lemma b64_24: "binary64 (5713942027226317 / 281474976710656) = 5713942027226317 / 281474976710656"
  by (subst binary64_eval[where e="4"]) (simp_all add: roundTiesToEven_def Let_def)

lemmas b64 = b64_0 b64_1 b64_2 b64_3 b64_4 b64_5 b64_6 b64_7 b64_8 b64_9 b64_10 b64_11 b64_12 b64_13 b64_14 b64_15 b64_16 b64_17 b64_18 b64_19 b64_20 b64_21 b64_22 b64_23 b64_24

lemma decimal_candidates:
  "tryCandidatesR binary64 hyp decimalP1 decimalP2 =
     [\<lparr>points = [decimalP1, \<lparr>ptx = 2800676018271027 / 70368744177664, pty = 3602879701896397 / 36028797018963968\<rparr>, decimalP2],
       len = binary64 (hyp (2800676018271027 / 70368744177664) (0) + hyp (1421448632388813 / 70368744177664) (5685794529555251 / 281474976710656)),
       horizontalFirst = True\<rparr>,
      \<lparr>points = [decimalP1, \<lparr>ptx = 5643573283048653 / 70368744177664, pty = 3602879701896397 / 36028797018963968\<rparr>, decimalP2],
       len = binary64 (hyp (5643573283048653 / 70368744177664) (0) + hyp (- (1421448632388813 / 70368744177664)) (5685794529555251 / 281474976710656)),
       horizontalFirst = True\<rparr>,
      \<lparr>points = [decimalP1, \<lparr>ptx = 0, pty = - (2793639143853261 / 70368744177664)\<rparr>, decimalP2],
       len = binary64 (hyp (0) (- (5601352036542055 / 140737488355328)) + hyp (60) (60)),
       horizontalFirst = False\<rparr>,
      \<lparr>points = [decimalP1, \<lparr>ptx = 0, pty = 5650610157466419 / 70368744177664\<rparr>, decimalP2],
       len = binary64 (hyp (0) (5643573283048653 / 70368744177664) + hyp (60) (- 60)),
       horizontalFirst = False\<rparr>,
      \<lparr>points = [decimalP1, \<lparr>ptx = 5685794529555251 / 281474976710656, pty = 5713942027226317 / 281474976710656\<rparr>, decimalP2],
       len = binary64 (hyp (5685794529555251 / 281474976710656) (5685794529555251 / 281474976710656) + hyp (2800676018271027 / 70368744177664) (0)),
       horizontalFirst = False\<rparr>,
      \<lparr>points = [decimalP1, \<lparr>ptx = - (5685794529555251 / 281474976710656), pty = 5713942027226317 / 281474976710656\<rparr>, decimalP2],
       len = binary64 (hyp (- (5685794529555251 / 281474976710656)) (5685794529555251 / 281474976710656) + hyp (5643573283048653 / 70368744177664) (0)),
       horizontalFirst = False\<rparr>,
      \<lparr>points = [decimalP1, \<lparr>ptx = 60, pty = 8458323050155213 / 140737488355328\<rparr>, decimalP2],
       len = binary64 (hyp (60) (60) + hyp (0) (- (2800676018271027 / 70368744177664))),
       horizontalFirst = True\<rparr>,
      \<lparr>points = [decimalP1, \<lparr>ptx = 60, pty = - (8430175552484147 / 140737488355328)\<rparr>, decimalP2],
       len = binary64 (hyp (60) (- 60) + hyp (0) (5643573283048653 / 70368744177664)),
       horizontalFirst = True\<rparr>]"
  by (simp add: tryCandidatesR_def tryPathR_def decimalP1_def decimalP2_def Let_def b64 binary64_0)

lemma decimal_route:
  assumes acc: "accurate hyp"
  shows "getOctolinearSegmentR binary64 hyp decimalP1 decimalP2 False
         = Some [decimalP1, decimalElbow, decimalP2]"
proof -
  let ?k0 = "\<lparr>points = [decimalP1, \<lparr>ptx = 2800676018271027 / 70368744177664, pty = 3602879701896397 / 36028797018963968\<rparr>, decimalP2], len = binary64 (hyp (2800676018271027 / 70368744177664) (0) + hyp (1421448632388813 / 70368744177664) (5685794529555251 / 281474976710656)), horizontalFirst = True\<rparr>"
  let ?k1 = "\<lparr>points = [decimalP1, \<lparr>ptx = 5643573283048653 / 70368744177664, pty = 3602879701896397 / 36028797018963968\<rparr>, decimalP2], len = binary64 (hyp (5643573283048653 / 70368744177664) (0) + hyp (- (1421448632388813 / 70368744177664)) (5685794529555251 / 281474976710656)), horizontalFirst = True\<rparr>"
  let ?k2 = "\<lparr>points = [decimalP1, \<lparr>ptx = 0, pty = - (2793639143853261 / 70368744177664)\<rparr>, decimalP2], len = binary64 (hyp (0) (- (5601352036542055 / 140737488355328)) + hyp (60) (60)), horizontalFirst = False\<rparr>"
  let ?k3 = "\<lparr>points = [decimalP1, \<lparr>ptx = 0, pty = 5650610157466419 / 70368744177664\<rparr>, decimalP2], len = binary64 (hyp (0) (5643573283048653 / 70368744177664) + hyp (60) (- 60)), horizontalFirst = False\<rparr>"
  let ?k4 = "\<lparr>points = [decimalP1, \<lparr>ptx = 5685794529555251 / 281474976710656, pty = 5713942027226317 / 281474976710656\<rparr>, decimalP2], len = binary64 (hyp (5685794529555251 / 281474976710656) (5685794529555251 / 281474976710656) + hyp (2800676018271027 / 70368744177664) (0)), horizontalFirst = False\<rparr>"
  let ?k5 = "\<lparr>points = [decimalP1, \<lparr>ptx = - (5685794529555251 / 281474976710656), pty = 5713942027226317 / 281474976710656\<rparr>, decimalP2], len = binary64 (hyp (- (5685794529555251 / 281474976710656)) (5685794529555251 / 281474976710656) + hyp (5643573283048653 / 70368744177664) (0)), horizontalFirst = False\<rparr>"
  let ?k6 = "\<lparr>points = [decimalP1, \<lparr>ptx = 60, pty = 8458323050155213 / 140737488355328\<rparr>, decimalP2], len = binary64 (hyp (60) (60) + hyp (0) (- (2800676018271027 / 70368744177664))), horizontalFirst = True\<rparr>"
  let ?k7 = "\<lparr>points = [decimalP1, \<lparr>ptx = 60, pty = - (8430175552484147 / 140737488355328)\<rparr>, decimalP2], len = binary64 (hyp (60) (- 60) + hyp (0) (5643573283048653 / 70368744177664)), horizontalFirst = True\<rparr>"
  have lo0: "(1989 / 50 + 571 / 20) * (998 / 1000) \<le> binary64 (hyp (2800676018271027 / 70368744177664) (0) + hyp (1421448632388813 / 70368744177664) (5685794529555251 / 281474976710656))"
    by (rule len_lower[OF acc]) (simp_all add: power2_eq_square)
  have up0: "binary64 (hyp (2800676018271027 / 70368744177664) (0) + hyp (1421448632388813 / 70368744177664) (5685794529555251 / 281474976710656)) \<le> (3981 / 100 + 1429 / 50) * (1003 / 1000)"
    by (rule len_upper[OF acc]) (simp_all add: power2_eq_square)
  have lo1: "(8019 / 100 + 571 / 20) * (998 / 1000) \<le> binary64 (hyp (5643573283048653 / 70368744177664) (0) + hyp (- (1421448632388813 / 70368744177664)) (5685794529555251 / 281474976710656))"
    by (rule len_lower[OF acc]) (simp_all add: power2_eq_square)
  have lo2: "(3979 / 100 + 2121 / 25) * (998 / 1000) \<le> binary64 (hyp (0) (- (5601352036542055 / 140737488355328)) + hyp (60) (60))"
    by (rule len_lower[OF acc]) (simp_all add: power2_eq_square)
  have lo3: "(8019 / 100 + 2121 / 25) * (998 / 1000) \<le> binary64 (hyp (0) (5643573283048653 / 70368744177664) + hyp (60) (- 60))"
    by (rule len_lower[OF acc]) (simp_all add: power2_eq_square)
  have lo4: "(571 / 20 + 1989 / 50) * (998 / 1000) \<le> binary64 (hyp (5685794529555251 / 281474976710656) (5685794529555251 / 281474976710656) + hyp (2800676018271027 / 70368744177664) (0))"
    by (rule len_lower[OF acc]) (simp_all add: power2_eq_square)
  have up4: "binary64 (hyp (5685794529555251 / 281474976710656) (5685794529555251 / 281474976710656) + hyp (2800676018271027 / 70368744177664) (0)) \<le> (1429 / 50 + 3981 / 100) * (1003 / 1000)"
    by (rule len_upper[OF acc]) (simp_all add: power2_eq_square)
  have lo5: "(571 / 20 + 8019 / 100) * (998 / 1000) \<le> binary64 (hyp (- (5685794529555251 / 281474976710656)) (5685794529555251 / 281474976710656) + hyp (5643573283048653 / 70368744177664) (0))"
    by (rule len_lower[OF acc]) (simp_all add: power2_eq_square)
  have lo6: "(2121 / 25 + 1989 / 50) * (998 / 1000) \<le> binary64 (hyp (60) (60) + hyp (0) (- (2800676018271027 / 70368744177664)))"
    by (rule len_lower[OF acc]) (simp_all add: power2_eq_square)
  have lo7: "(2121 / 25 + 8019 / 100) * (998 / 1000) \<le> binary64 (hyp (60) (- 60) + hyp (0) (5643573283048653 / 70368744177664))"
    by (rule len_lower[OF acc]) (simp_all add: power2_eq_square)
  have tlo: "6329 / 100 * (3 / 2) * (998 / 1000) \<le> binary64 (hyp 60 (5685794529555251 / 281474976710656) * 1.5)"
    by (rule threshold_lower[OF acc]) (simp_all add: power2_eq_square)
  have tup: "binary64 (hyp 60 (5685794529555251 / 281474976710656) * 1.5) \<le> 1583 / 25 * (3 / 2) * (1003 / 1000)"
    by (rule threshold_upper[OF acc]) (simp_all add: power2_eq_square)
  have cs: "tryCandidatesR binary64 hyp decimalP1 decimalP2 = [?k0, ?k1, ?k2, ?k3, ?k4, ?k5, ?k6, ?k7]"
    by (rule decimal_candidates)
  have step: "getOctolinearSegmentR binary64 hyp decimalP1 decimalP2 False
      = selectRouteR binary64 decimalP1 decimalP2 False (hyp 60 (5685794529555251 / 281474976710656)) (tryCandidatesR binary64 hyp decimalP1 decimalP2)"
    by (simp add: getOctolinearSegmentR_def Let_def decimalP1_def decimalP2_def b64)
  have valid: "c = ?k0 \<or> c = ?k4" if "c \<in> set (tryCandidatesR binary64 hyp decimalP1 decimalP2)" "len c < binary64 (hyp 60 (5685794529555251 / 281474976710656) * 1.5)" for c
    using that lo1 lo2 lo3 lo5 lo6 lo7 tup unfolding cs by auto
  have "selectRouteR binary64 decimalP1 decimalP2 False (hyp 60 (5685794529555251 / 281474976710656)) (tryCandidatesR binary64 hyp decimalP1 decimalP2) = Some (points ?k0)"
  proof (rule selectRouteR_preferred)
    show "binary64 0 = 0" by (rule binary64_0)
    show "?k0 \<in> set (tryCandidatesR binary64 hyp decimalP1 decimalP2)" unfolding cs by simp
    show "len ?k0 < binary64 (hyp 60 (5685794529555251 / 281474976710656) * 1.5)" using up0 tlo by simp
    show "horizontalFirst ?k0 = (\<not> False)" by simp
    show "\<bar>binary64 (len ?k0 - len c)\<bar> < 1" if "c \<in> set (tryCandidatesR binary64 hyp decimalP1 decimalP2)" "len c < binary64 (hyp 60 (5685794529555251 / 281474976710656) * 1.5)" for c
    proof -
      have b: "\<bar>binary64 (binary64 (hyp (2800676018271027 / 70368744177664) (0) + hyp (1421448632388813 / 70368744177664) (5685794529555251 / 281474976710656)) - binary64 (hyp (5685794529555251 / 281474976710656) (5685794529555251 / 281474976710656) + hyp (2800676018271027 / 70368744177664) (0)))\<bar> < 1"
        by (rule near_lens[OF lo0 up0 lo4 up4]) simp_all
      from valid[OF that] show ?thesis using b by (auto simp: binary64_0)
    qed
    show "points c = points ?k0" if "c \<in> set (tryCandidatesR binary64 hyp decimalP1 decimalP2)" "len c < binary64 (hyp 60 (5685794529555251 / 281474976710656) * 1.5)" "horizontalFirst c = (\<not> False)" for c
      using valid[OF that(1,2)] that(3) by auto
  qed
  then show ?thesis unfolding step by (simp add: decimalElbow_def)
qed

subsection \<open>The direct segment\<close>


subsection \<open>Properties of the router\<close>

text \<open>
  C3. When the two points are aligned horizontally, vertically or at 45 degrees within
  the router's tolerance of one unit, the router returns exactly the two endpoints,
  whatever the alternate flag is.
\<close>

theorem aligned_returns_endpoints:
  "aligned p1 p2 \<Longrightarrow> getOctolinearSegment p1 p2 alternate = Some [p1, p2]"
  by (simp add: aligned_def getOctolinearSegment_def Let_def)

theorem aligned_returns_endpoints_witness:
  "aligned \<lparr>ptx = 0, pty = 0\<rparr> \<lparr>ptx = 60, pty = 60\<rparr>
   \<and> getOctolinearSegment \<lparr>ptx = 0, pty = 0\<rparr> \<lparr>ptx = 60, pty = 60\<rparr> True
       = Some [\<lparr>ptx = 0, pty = 0\<rparr>, \<lparr>ptx = 60, pty = 60\<rparr>]"
proof -
  have h: "aligned \<lparr>ptx = 0, pty = 0\<rparr> \<lparr>ptx = 60, pty = 60\<rparr>"
    by (simp add: aligned_def)
  show ?thesis
    using h aligned_returns_endpoints [OF h, of True] by simp
qed

text \<open>
  C1. For two points on the integer grid (whole coordinates of magnitude at most \<open>2^50\<close>)
  that are not aligned within the router's tolerance, the router run in binary64
  arithmetic, with any \<^verbatim>\<open>Math.hypot\<close> of relative error at most one in a thousand,
  returns three points, the two endpoints around one elbow that is neither of them, and
  each of the two sub-segments is horizontal, vertical or at exactly 45 degrees.
\<close>

theorem elbow_is_octolinear:
  assumes "onGrid p1" and "onGrid p2" and "accurate hyp" and "\<not> aligned p1 p2"
  shows "\<exists>mid. getOctolinearSegmentR binary64 hyp p1 p2 alternate = Some [p1, mid, p2]
               \<and> mid \<noteq> p1 \<and> mid \<noteq> p2
               \<and> octolinear p1 mid \<and> octolinear mid p2"
proof -
  obtain b where b: "b \<in> set (tryCandidatesR binary64 hyp p1 p2)"
      "selectRouteR binary64 p1 p2 alternate (hyp (ptx p2 - ptx p1) (pty p2 - pty p1))
         (tryCandidatesR binary64 hyp p1 p2) = Some (points b)"
    using selectRouteR_picks[OF binary64_0 grid_valid[OF assms]] by blast
  obtain c where c: "c \<in> set (tryCandidates p1 p2)" "points b = points c"
    using b(1) unfolding grid_candidates[OF assms(1,2)] by auto
  obtain mid where mid: "points c = [p1, mid, p2]" "octolinear p1 mid" "octolinear mid p2"
    using tryCandidates_shape[OF c(1)] by blast
  have "mid \<noteq> p1" "mid \<noteq> p2"
    using mid(2,3) assms(4) octolinear_aligned by blast+
  then show ?thesis
    using mid b(2) c(2) grid_router_unaligned[OF assms(1,2,4), of hyp alternate] by auto
qed

theorem elbow_is_octolinear_witness:
  "onGrid \<lparr>ptx = 0, pty = 0\<rparr> \<and> onGrid \<lparr>ptx = 60, pty = 20\<rparr> \<and> accurate hypot64
   \<and> \<not> aligned \<lparr>ptx = 0, pty = 0\<rparr> \<lparr>ptx = 60, pty = 20\<rparr>
   \<and> (\<exists>mid. getOctolinearSegmentR binary64 hypot64 \<lparr>ptx = 0, pty = 0\<rparr> \<lparr>ptx = 60, pty = 20\<rparr> False
               = Some [\<lparr>ptx = 0, pty = 0\<rparr>, mid, \<lparr>ptx = 60, pty = 20\<rparr>]
            \<and> mid \<noteq> \<lparr>ptx = 0, pty = 0\<rparr> \<and> mid \<noteq> \<lparr>ptx = 60, pty = 20\<rparr>
            \<and> octolinear \<lparr>ptx = 0, pty = 0\<rparr> mid \<and> octolinear mid \<lparr>ptx = 60, pty = 20\<rparr>)"
proof -
  have g: "onGrid \<lparr>ptx = 0, pty = 0\<rparr>" "onGrid \<lparr>ptx = 60, pty = 20\<rparr>"
    by (simp_all add: onGrid_def)
  have h: "\<not> aligned \<lparr>ptx = 0, pty = 0\<rparr> \<lparr>ptx = 60, pty = 20\<rparr>"
    by (simp add: aligned_def)
  show ?thesis
    using g h accurate_hypot64 elbow_is_octolinear [OF g accurate_hypot64 h, of False] by blast
qed

text \<open>
  Off the grid the coordinate of the elbow is a rounded sum, and the diagonal
  sub-segment is at 45 degrees only up to that rounding: between \<open>(0, 0.1)\<close> and
  \<open>(60, 20.3)\<close> the elbow is \<open>(39.8, 0.1)\<close>, and the sub-segment from it to the second point
  is \<open>20.200000000000003\<close> wide and \<open>20.2\<close> high. The route is the same for every
  accurate \<open>hyp\<close>, of which \<open>hypot64\<close> is one.
\<close>

theorem rounded_elbow_counterexample:
  "decimalP1 = \<lparr>ptx = binary64 0, pty = binary64 (1 / 10)\<rparr>
   \<and> decimalP2 = \<lparr>ptx = binary64 60, pty = binary64 (203 / 10)\<rparr>
   \<and> decimalElbow = \<lparr>ptx = binary64 (398 / 10), pty = binary64 (1 / 10)\<rparr>
   \<and> \<not> aligned decimalP1 decimalP2
   \<and> getOctolinearSegmentR binary64 hypot64 decimalP1 decimalP2 False
       = Some [decimalP1, decimalElbow, decimalP2]
   \<and> \<not> octolinear decimalElbow decimalP2"
proof -
  have d1: "binary64 (1 / 10) = 3602879701896397 / 36028797018963968"
    by (subst binary64_eval[where e="- 4"]) (simp_all add: roundTiesToEven_def Let_def)
  have d2: "binary64 (203 / 10) = 5713942027226317 / 281474976710656"
    by (subst binary64_eval[where e="4"]) (simp_all add: roundTiesToEven_def Let_def)
  have d3: "binary64 (398 / 10) = 2800676018271027 / 70368744177664"
    by (subst binary64_eval[where e="5"]) (simp_all add: roundTiesToEven_def Let_def)
  have i: "decimalP1 = \<lparr>ptx = binary64 0, pty = binary64 (1 / 10)\<rparr>"
    "decimalP2 = \<lparr>ptx = binary64 60, pty = binary64 (203 / 10)\<rparr>"
    "decimalElbow = \<lparr>ptx = binary64 (398 / 10), pty = binary64 (1 / 10)\<rparr>"
    unfolding d1 d2 d3 by (simp_all add: decimalP1_def decimalP2_def decimalElbow_def b64 binary64_0)
  have a: "\<not> aligned decimalP1 decimalP2"
    by (simp add: aligned_def decimalP1_def decimalP2_def)
  have r: "getOctolinearSegmentR binary64 hypot64 decimalP1 decimalP2 False
       = Some [decimalP1, decimalElbow, decimalP2]"
    by (rule decimal_route[OF accurate_hypot64])
  have n: "\<not> octolinear decimalElbow decimalP2"
    by (simp add: octolinear_def decimalElbow_def decimalP2_def)
  show ?thesis using i a r n by blast
qed



section \<open>The segment registry and the offsets\<close>

subsection \<open>What the construction stores\<close>

lemma segmentKey_commute: "segmentKey pA pB = segmentKey pB pA"
  by (auto simp: segmentKey_def Let_def)

lemma idsAt_empty: "idsAt Map.empty key = {}"
  by (simp add: idsAt_def)

lemma wellFormed_empty: "wellFormed Map.empty"
  by (simp add: wellFormed_def)

lemma register_idsAt:
  "idsAt (register registry pA pB lineId) key
   = idsAt registry key
     \<union> (if \<not> hypot (ptx pA - ptx pB) (pty pA - pty pB) < 1 \<and> key = segmentKey pA pB then {lineId} else {})"
  by (auto simp: register_def idsAt_def Let_def split: option.splits if_splits)

lemma register_wellFormed:
  "wellFormed registry \<Longrightarrow> wellFormed (register registry pA pB lineId)"
  by (auto simp: register_def wellFormed_def Let_def split: option.splits if_splits)

lemma adds_register: "\<exists>C. adds (\<lambda>registry. Some (register registry pA pB lineId)) C"
  unfolding adds_def
  by (rule exI[of _ "\<lambda>key. if \<not> hypot (ptx pA - ptx pB) (pty pA - pty pB) < 1 \<and> key = segmentKey pA pB then {lineId} else {}"])
     (simp add: register_idsAt register_wellFormed)

lemma adds_Some: "adds Some (\<lambda>key. {})"
  by (simp add: adds_def)

lemma adds_bind:
  assumes "adds f C" "adds g D"
  shows "adds (\<lambda>registry. Option.bind (f registry) g) (\<lambda>key. C key \<union> D key)"
  unfolding adds_def
proof
  fix registry
  obtain r where r: "f registry = Some r" "\<forall>key. idsAt r key = idsAt registry key \<union> C key"
      "wellFormed registry \<longrightarrow> wellFormed r"
    using assms(1) unfolding adds_def by blast
  obtain r' where r': "g r = Some r'" "\<forall>key. idsAt r' key = idsAt r key \<union> D key"
      "wellFormed r \<longrightarrow> wellFormed r'"
    using assms(2) unfolding adds_def by blast
  show "\<exists>r. Option.bind (f registry) g = Some r
          \<and> (\<forall>key. idsAt r key = idsAt registry key \<union> (C key \<union> D key))
          \<and> (wellFormed registry \<longrightarrow> wellFormed r)"
    using r r' by (intro exI[of _ r']) auto
qed

lemma adds_registerPts: "\<exists>C. adds (\<lambda>registry. Some (registerPts registry ps lineId)) C"
proof (induction ps rule: induct_list012)
  case 1
  show ?case using adds_Some by auto
next
  case (2 a)
  show ?case using adds_Some by auto
next
  case (3 a b ps)
  obtain C where C: "adds (\<lambda>registry. Some (register registry a b lineId)) C"
    using adds_register by blast
  obtain D where D: "adds (\<lambda>registry. Some (registerPts registry (b # ps) lineId)) D"
    using 3 by blast
  have "adds (\<lambda>registry. Some (registerPts registry (a # b # ps) lineId)) (\<lambda>key. C key \<union> D key)"
    using adds_bind[OF C D] by simp
  then show ?case by blast
qed

lemma adds_registerHops: "\<exists>C. adds (\<lambda>registry. registerHops registry cs alternate lineId) C"
proof (induction cs rule: induct_list012)
  case 1
  show ?case using adds_Some by auto
next
  case (2 a)
  show ?case using adds_Some by auto
next
  case (3 a b cs)
  obtain ps where ps: "getOctolinearSegment a b alternate = Some ps"
    using router_total by blast
  obtain C where C: "adds (\<lambda>registry. Some (registerPts registry ps lineId)) C"
    using adds_registerPts by blast
  obtain D where D: "adds (\<lambda>registry. registerHops registry (b # cs) alternate lineId) D"
    using 3 by blast
  have "adds (\<lambda>registry. registerHops registry (a # b # cs) alternate lineId) (\<lambda>key. C key \<union> D key)"
    using adds_bind[OF C D] ps by simp
  then show ?case by blast
qed

lemma adds_registerLine_ex: "\<exists>C. adds (\<lambda>registry. registerLine stations registry line) C"
proof -
  let ?sc = "map pointOf (resolveStations stations (stationIds line))"
  show ?thesis
  proof (cases "length (stationIds line) < 2 \<or> length ?sc < 2")
    case True
    then have "(\<lambda>registry. registerLine stations registry line) = Some"
      by (auto simp: registerLine_def Let_def)
    then show ?thesis using adds_Some by auto
  next
    case False
    obtain C where C: "adds (\<lambda>registry. registerHops registry ?sc (alternateRoute line) (lid line)) C"
      using adds_registerHops by blast
    show ?thesis
    proof (cases "closedLoop line")
      case True
      obtain ps where ps: "getOctolinearSegment (last ?sc) (hd ?sc) (alternateRoute line) = Some ps"
        using router_total by blast
      obtain D where D: "adds (\<lambda>registry. Some (registerPts registry ps (lid line))) D"
        using adds_registerPts by blast
      have "(\<lambda>registry. registerLine stations registry line)
            = (\<lambda>registry. Option.bind (registerHops registry ?sc (alternateRoute line) (lid line))
                 (\<lambda>registry. Some (registerPts registry ps (lid line))))"
        using False True ps by (auto simp: registerLine_def Let_def split: option.splits)
      then show ?thesis using adds_bind[OF C D] by auto
    next
      case cl: False
      have "(\<lambda>registry. registerLine stations registry line)
            = (\<lambda>registry. registerHops registry ?sc (alternateRoute line) (lid line))"
        using False cl by (auto simp: registerLine_def Let_def split: option.splits)
      then show ?thesis using C by auto
    qed
  qed
qed

lemma adds_registerLine:
  "adds (\<lambda>registry. registerLine stations registry line) (lineContribution stations line)"
proof -
  obtain C where C: "adds (\<lambda>registry. registerLine stations registry line) C"
    using adds_registerLine_ex by blast
  obtain r where r: "registerLine stations Map.empty line = Some r"
      "\<forall>key. idsAt r key = idsAt Map.empty key \<union> C key"
    using C unfolding adds_def by blast
  have "C = lineContribution stations line"
    using r by (auto simp: lineContribution_def idsAt_empty fun_eq_iff)
  then show ?thesis using C by simp
qed

lemma adds_registerLines:
  "adds (\<lambda>registry. registerLines stations registry ls)
        (\<lambda>key. \<Union>l \<in> set ls. lineContribution stations l key)"
proof (induction ls)
  case Nil
  show ?case using adds_Some by simp
next
  case (Cons l ls)
  have eq: "(\<lambda>registry. registerLines stations registry (l # ls))
        = (\<lambda>registry. Option.bind (registerLine stations registry l)
             (\<lambda>registry. registerLines stations registry ls))"
    by (auto simp: fun_eq_iff split: option.splits)
  have "(\<lambda>key. \<Union>l \<in> set (l # ls). lineContribution stations l key)
        = (\<lambda>key. lineContribution stations l key \<union> (\<Union>l \<in> set ls. lineContribution stations l key))"
    by auto
  then show ?case using adds_bind[OF adds_registerLine Cons] eq by simp
qed

lemma registry_char:
  "\<exists>r. segmentRegistry lines stations = Some r
      \<and> (\<forall>key. r key = (if (\<Union>l \<in> set lines. lineContribution stations l key) = {} then None
                         else Some (sorted_list_of_set (\<Union>l \<in> set lines. lineContribution stations l key))))"
proof -
  obtain r0 where r0: "registerLines stations Map.empty lines = Some r0"
      "\<forall>key. idsAt r0 key = idsAt Map.empty key \<union> (\<Union>l \<in> set lines. lineContribution stations l key)"
      "wellFormed r0"
    using adds_registerLines[of stations lines] wellFormed_empty unfolding adds_def by blast
  have U: "idsAt r0 key = (\<Union>l \<in> set lines. lineContribution stations l key)" for key
    using r0(2) by (simp add: idsAt_empty)
  have "map_option sort (r0 key)
        = (if idsAt r0 key = {} then None else Some (sorted_list_of_set (idsAt r0 key)))" for key
  proof (cases "r0 key")
    case None
    then show ?thesis by (simp add: idsAt_def)
  next
    case (Some xs)
    then have "distinct xs" "xs \<noteq> []" using r0(3) unfolding wellFormed_def by blast+
    then show ?thesis using Some
      by (simp add: idsAt_def sorted_list_of_set_sort_remdups distinct_remdups_id)
  qed
  then show ?thesis using r0(1) U by (simp add: segmentRegistry_def)
qed

lemma registry_lists:
  assumes "segmentRegistry lines stations = Some registry" "registry key = Some ids"
  shows "sorted ids" "distinct ids" "ids \<noteq> []"
proof -
  let ?U = "\<Union>l \<in> set lines. lineContribution stations l key"
  have fin: "finite ?U"
    by (auto simp: lineContribution_def idsAt_def split: option.splits)
  have ids: "?U \<noteq> {}" "ids = sorted_list_of_set ?U"
    using registry_char[of lines stations] assms by (auto split: if_splits)
  show "sorted ids" "distinct ids" using ids by simp_all
  show "ids \<noteq> []" using ids fin by simp
qed

lemma registry_order_independent:
  assumes "set lines' = set lines"
  shows "segmentRegistry lines' stations = segmentRegistry lines stations"
proof -
  obtain r where r: "segmentRegistry lines stations = Some r"
    "\<forall>key. r key = (if (\<Union>l \<in> set lines. lineContribution stations l key) = {} then None
                         else Some (sorted_list_of_set (\<Union>l \<in> set lines. lineContribution stations l key)))"
    using registry_char by blast
  obtain r' where r': "segmentRegistry lines' stations = Some r'"
    "\<forall>key. r' key = (if (\<Union>l \<in> set lines'. lineContribution stations l key) = {} then None
                         else Some (sorted_list_of_set (\<Union>l \<in> set lines'. lineContribution stations l key)))"
    using registry_char by blast
  have "r' = r" using r(2) r'(2) assms by (simp add: fun_eq_iff)
  then show ?thesis using r(1) r'(1) by simp
qed

lemma indexOf_nonneg: "v \<in> set xs \<Longrightarrow> 0 \<le> indexOf xs v"
  by (induction xs) (auto simp: Let_def)

lemma indexOf_absent: "v \<notin> set xs \<Longrightarrow> indexOf xs v = - 1"
  by (induction xs) (auto simp: Let_def)

lemma indexOf_nth: "distinct xs \<Longrightarrow> i < length xs \<Longrightarrow> indexOf xs (xs ! i) = int i"
proof (induction xs arbitrary: i)
  case Nil
  then show ?case by simp
next
  case (Cons a xs)
  show ?case
  proof (cases i)
    case 0
    then show ?thesis by simp
  next
    case (Suc j)
    then have "indexOf xs (xs ! j) = int j" "xs ! j \<in> set xs" using Cons by auto
    then show ?thesis using Suc Cons.prems by (auto simp: Let_def)
  qed
qed


subsection \<open>The example, evaluated\<close>

lemma showNat_digits: "showNat 0 = ''0''" "showNat 100 = ''100''"
  by (simp_all add: showNat.simps)

lemma keyAB: "segmentKey (pointOf stA) (pointOf stB) = ''0,0_100,0''"
  by (simp add: segmentKey_def pointKey_def showInt_def showNat.simps pointOf_def stA_def stB_def Let_def less_char_def)

lemma keyBA: "segmentKey (pointOf stB) (pointOf stA) = ''0,0_100,0''"
  by (simp add: segmentKey_commute keyAB)

lemma routeAB: "getOctolinearSegment (pointOf stA) (pointOf stB) False = Some [pointOf stA, pointOf stB]"
  "getOctolinearSegment (pointOf stB) (pointOf stA) False = Some [pointOf stB, pointOf stA]"
  by (simp_all add: getOctolinearSegment_def pointOf_def stA_def stB_def)

lemma hypAB: "\<not> hypot (ptx (pointOf stA) - ptx (pointOf stB)) (pty (pointOf stA) - pty (pointOf stB)) < 1"
   "\<not> hypot (ptx (pointOf stB) - ptx (pointOf stA)) (pty (pointOf stB) - pty (pointOf stA)) < 1"
  by (simp_all add: hypot_def pointOf_def stA_def stB_def)

lemma resolveAB: "resolveStations [stA, stB] [''a'', ''b''] = [stA, stB]"
  "resolveStations [stA, stB] [''b'', ''a''] = [stB, stA]"
  by (simp_all add: resolveStations_def List.map_filter_def stA_def stB_def)

lemma raw_example:
  "registerLines [stA, stB] Map.empty [ln2, ln1] = Some [''0,0_100,0'' \<mapsto> [''l2'', ''l1'']]"
  by (simp add: registerLine_def resolveAB routeAB register_def hypAB keyAB keyBA ln1_def ln2_def)

lemma sorted_example: "sort [''l2'', ''l1''] = [''l1'', ''l2'']"
  by (simp add: less_eq_char_def less_char_def)

lemma registry_example:
  "\<exists>r. segmentRegistry [ln2, ln1] [stA, stB] = Some r \<and> r ''0,0_100,0'' = Some [''l1'', ''l2'']"
  unfolding segmentRegistry_def raw_example by (simp add: sorted_example)

subsection \<open>Properties of the registry and of the offsets\<close>

text \<open>
  C7. In the registry that \<open>segmentRegistry\<close> returns, the list of line ids under every
  key is in ascending order (and free of duplicates), and the registry is the same for
  every order of the line collection.
\<close>

theorem registry_sorted:
  assumes "segmentRegistry lines stations = Some registry" "registry key = Some ids"
  shows "sorted ids \<and> distinct ids
         \<and> (\<forall>lines'. set lines' = set lines \<longrightarrow> segmentRegistry lines' stations = Some registry)"
  using registry_lists[OF assms] registry_order_independent[of _ lines stations] assms(1) by simp

theorem registry_sorted_witness:
  "\<exists>r. segmentRegistry [ln2, ln1] [stA, stB] = Some r
      \<and> r ''0,0_100,0'' = Some [''l1'', ''l2'']
      \<and> sorted [''l1'', ''l2''] \<and> distinct [''l1'', ''l2'']
      \<and> segmentRegistry [ln1, ln2] [stA, stB] = Some r"
proof -
  obtain r where r: "segmentRegistry [ln2, ln1] [stA, stB] = Some r"
      "r ''0,0_100,0'' = Some [''l1'', ''l2'']"
    using registry_example by blast
  have s: "set [ln1, ln2] = set [ln2, ln1]" by auto
  show ?thesis
    using registry_sorted [OF r] r s by (intro exI[of _ r]) blast
qed

text \<open>
  C2. When a segment's key holds the sorted list of \<open>n\<close> line ids, the offset of the line
  of rank \<open>i\<close> is \<open>(i - (n - 1) / 2) * LINE_SPACING\<close>; the offsets of the ranks \<open>i\<close> and
  \<open>n - 1 - i\<close> cancel, and two consecutive ranks are one spacing apart.
\<close>

theorem offsets_centred:
  assumes "segmentRegistry lines stations = Some registry"
    and "registry (segmentKey p1 p2) = Some ids"
    and "i < length ids"
  shows "getLineOffset registry p1 p2 (ids ! i) = (real i - (real (length ids) - 1) / 2) * LINE_SPACING
         \<and> getLineOffset registry p1 p2 (ids ! i)
             + getLineOffset registry p1 p2 (ids ! (length ids - 1 - i)) = 0
         \<and> (Suc i < length ids \<longrightarrow>
              getLineOffset registry p1 p2 (ids ! Suc i) - getLineOffset registry p1 p2 (ids ! i)
                = LINE_SPACING)"
proof -
  have d: "distinct ids" using registry_lists(2)[OF assms(1,2)] .
  have off: "getLineOffset registry p1 p2 (ids ! j) = (real j - (real (length ids) - 1) / 2) * LINE_SPACING"
    if "j < length ids" for j
    using that assms(2) indexOf_nth[OF d that] by (simp add: getLineOffset_def Let_def)
  have j: "length ids - 1 - i < length ids" using assms(3) by simp
  have r: "real (length ids - 1 - i) = real (length ids) - 1 - real i"
    using assms(3) by (simp add: of_nat_diff)
  have a: "getLineOffset registry p1 p2 (ids ! i)
             + getLineOffset registry p1 p2 (ids ! (length ids - 1 - i)) = 0"
    unfolding off[OF assms(3)] off[OF j] r by (simp add: algebra_simps)
  have b: "getLineOffset registry p1 p2 (ids ! Suc i) - getLineOffset registry p1 p2 (ids ! i)
             = LINE_SPACING" if "Suc i < length ids"
    unfolding off[OF assms(3)] off[OF that] by (simp add: algebra_simps)
  show ?thesis using off[OF assms(3)] a b by blast
qed

theorem offsets_centred_witness:
  "\<exists>r. segmentRegistry [ln2, ln1] [stA, stB] = Some r
      \<and> r (segmentKey (pointOf stA) (pointOf stB)) = Some [''l1'', ''l2'']
      \<and> getLineOffset r (pointOf stA) (pointOf stB) ''l1'' = - (7 / 2)
      \<and> getLineOffset r (pointOf stA) (pointOf stB) ''l1''
          + getLineOffset r (pointOf stA) (pointOf stB) ''l2'' = 0
      \<and> getLineOffset r (pointOf stA) (pointOf stB) ''l2''
          - getLineOffset r (pointOf stA) (pointOf stB) ''l1'' = 7"
proof -
  obtain r where r: "segmentRegistry [ln2, ln1] [stA, stB] = Some r"
      "r (segmentKey (pointOf stA) (pointOf stB)) = Some [''l1'', ''l2'']"
    using registry_example keyAB by auto
  have i: "0 < length [''l1'', ''l2'']" by simp
  show ?thesis
    using offsets_centred [OF r i] r by (intro exI[of _ r]) (simp add: LINE_SPACING_def)
qed

text \<open>
  C9. The offset of a line on a segment is the same for the two orders of the segment's
  endpoints: the key does not depend on the direction.
\<close>

theorem offset_direction_independent:
  "getLineOffset registry p1 p2 lineId = getLineOffset registry p2 p1 lineId"
  by (simp add: getLineOffset_def segmentKey_commute)

section \<open>Deleting a station\<close>

lemma length_resolveStations: "length (resolveStations stations ids) \<le> length ids"
  unfolding resolveStations_def List.map_filter_def
  by (metis (no_types, lifting) length_filter_le length_map)

lemma getLinePath_short:
  "length (stationIds line) < 2 \<Longrightarrow> getLinePath registry stations line = Some []"
  using length_resolveStations[of stations "stationIds line"]
  by (simp add: getLinePath_def Let_def)

lemma appLines_delete:
  "appLines (handleDelete app DeleteStation ident)
   = filter (\<lambda>l. stationIds l \<noteq> [])
       (map (\<lambda>l. l\<lparr>stationIds := filter (\<lambda>i. i \<noteq> ident) (stationIds l)\<rparr>) (appLines app))"
  by (simp add: handleDelete_def)

text \<open>
  C5. After a station is deleted, every line of the collection is a line of before without
  the station's id, and has at least one station; a line of before is kept exactly when
  it keeps a station; and a kept line with exactly one station has the empty path.
\<close>

theorem delete_station_cascade:
  "(\<forall>l' \<in> set (appLines (handleDelete app DeleteStation ident)).
      ident \<notin> set (stationIds l') \<and> stationIds l' \<noteq> []
      \<and> (\<exists>l \<in> set (appLines app). l' = l\<lparr>stationIds := filter (\<lambda>i. i \<noteq> ident) (stationIds l)\<rparr>)
      \<and> (length (stationIds l') = 1 \<longrightarrow> getLinePath registry stations l' = Some []))
   \<and> (\<forall>l \<in> set (appLines app).
        l\<lparr>stationIds := filter (\<lambda>i. i \<noteq> ident) (stationIds l)\<rparr>
          \<in> set (appLines (handleDelete app DeleteStation ident))
        \<longleftrightarrow> filter (\<lambda>i. i \<noteq> ident) (stationIds l) \<noteq> [])"
  by (auto simp: appLines_delete getLinePath_short)

theorem delete_station_cascade_witness:
  "appLines (handleDelete exampleApp DeleteStation ''a'') = [ln2\<lparr>stationIds := [''b'']\<rparr>]
   \<and> ''a'' \<notin> set (stationIds (ln2\<lparr>stationIds := [''b'']\<rparr>))
   \<and> length (stationIds (ln2\<lparr>stationIds := [''b'']\<rparr>)) = 1
   \<and> getLinePath Map.empty (appStations (handleDelete exampleApp DeleteStation ''a''))
        (ln2\<lparr>stationIds := [''b'']\<rparr>) = Some []
   \<and> ln3\<lparr>stationIds := []\<rparr> \<notin> set (appLines (handleDelete exampleApp DeleteStation ''a''))"
proof -
  have a: "appLines (handleDelete exampleApp DeleteStation ''a'') = [ln2\<lparr>stationIds := [''b'']\<rparr>]"
    by (simp add: handleDelete_def exampleApp_def ln2_def ln3_def)
  have m: "ln2\<lparr>stationIds := [''b'']\<rparr> \<in> set (appLines (handleDelete exampleApp DeleteStation ''a''))"
    by (simp add: a)
  have n: "ln3 \<in> set (appLines exampleApp)" by (simp add: exampleApp_def)
  have f: "filter (\<lambda>i. i \<noteq> ''a'') (stationIds ln3) = []" by (simp add: ln3_def)
  note c = delete_station_cascade [of exampleApp "''a''" Map.empty
        "appStations (handleDelete exampleApp DeleteStation ''a'')"]
  have c1: "''a'' \<notin> set (stationIds (ln2\<lparr>stationIds := [''b'']\<rparr>))
      \<and> (length (stationIds (ln2\<lparr>stationIds := [''b'']\<rparr>)) = 1 \<longrightarrow>
           getLinePath Map.empty (appStations (handleDelete exampleApp DeleteStation ''a''))
             (ln2\<lparr>stationIds := [''b'']\<rparr>) = Some [])"
    using c [THEN conjunct1, THEN bspec, OF m] by blast
  have c2: "ln3\<lparr>stationIds := filter (\<lambda>i. i \<noteq> ''a'') (stationIds ln3)\<rparr>
        \<in> set (appLines (handleDelete exampleApp DeleteStation ''a''))
      \<longleftrightarrow> filter (\<lambda>i. i \<noteq> ''a'') (stationIds ln3) \<noteq> []"
    using c [THEN conjunct2, THEN bspec, OF n] .
  have l: "length (stationIds (ln2\<lparr>stationIds := [''b'']\<rparr>)) = 1" by simp
  show ?thesis using a c1 c2 l unfolding f by blast
qed

section \<open>The station shape classifier\<close>

lemma prevPointAt_total: "\<exists>v. prevPointAt stations station line idx = Some v"
proof -
  have "\<exists>v. Option.bind (getOctolinearSegment a b alt) (\<lambda>seg. Some (elemAt seg (int (length seg) - 2))) = Some v" for a b alt
    using router_total[of a b alt] by auto
  then show ?thesis
    by (auto simp: prevPointAt_def Let_def split: option.splits)
qed

lemma nextPointAt_total: "\<exists>v. nextPointAt stations station line idx = Some v"
proof -
  have "\<exists>v. Option.bind (getOctolinearSegment a b alt) (\<lambda>seg. Some (elemAt seg 1)) = Some v" for a b alt
    using router_total[of a b alt] by auto
  then show ?thesis
    by (auto simp: nextPointAt_def Let_def split: option.splits)
qed

lemma prevPoint_total: "\<exists>v. prevPoint stations station line = Some v"
  by (simp add: prevPoint_def prevPointAt_total)

lemma nextPoint_total: "\<exists>v. nextPoint stations station line = Some v"
  by (simp add: nextPoint_def nextPointAt_total)

lemma pillLoop_step:
  "pillLoop stations station (line # rest) bundleDir =
     (if \<not> straightThrough stations station line then Some (False, bundleDir)
      else case bundleDir of
             None \<Rightarrow> pillLoop stations station rest (Some (flowDir stations station line))
           | Some bd \<Rightarrow>
               if dot bd (flowDir stations station line) < 0.99 then Some (False, bundleDir)
               else pillLoop stations station rest bundleDir)"
proof -
  obtain u where u: "prevPoint stations station line = Some u" using prevPoint_total by blast
  obtain v where v: "nextPoint stations station line = Some v" using nextPoint_total by blast
  show ?thesis
    by (cases u; cases v)
       (auto simp: u v straightThrough_def flowDir_def pointOf_def Let_def split: option.splits)
qed

lemma pillLoop_Some:
  "pillLoop stations station ls (Some bd)
   = Some ((\<forall>l \<in> set ls. qualifies stations station bd l), Some bd)"
proof (induction ls)
  case Nil
  show ?case by simp
next
  case (Cons l ls)
  show ?case unfolding pillLoop_step using Cons by (auto simp: qualifies_def)
qed

lemma getDir_unit:
  "getDir p q \<noteq> \<lparr>ptx = 0, pty = 0\<rparr> \<Longrightarrow> dot (getDir p q) (getDir p q) = 1"
proof -
  assume nz: "getDir p q \<noteq> \<lparr>ptx = 0, pty = 0\<rparr>"
  define d where "d = hypot (ptx q - ptx p) (pty q - pty p)"
  have d: "\<not> d < 0.001" using nz by (auto simp: getDir_def Let_def d_def)
  then have dpos: "d > 0" by simp
  have sq: "d * d = (ptx q - ptx p)\<^sup>2 + (pty q - pty p)\<^sup>2"
    unfolding d_def hypot_def by (simp add: power2_eq_square[symmetric])
  have "dot (getDir p q) (getDir p q)
        = (ptx q - ptx p) * (ptx q - ptx p) / (d * d) + (pty q - pty p) * (pty q - pty p) / (d * d)"
    using d by (simp add: getDir_def Let_def d_def[symmetric] dot_def)
  also have "\<dots> = ((ptx q - ptx p)\<^sup>2 + (pty q - pty p)\<^sup>2) / (d * d)"
    by (simp only: power2_eq_square add_divide_distrib)
  also have "\<dots> = (d * d) / (d * d)" by (simp only: sq)
  finally show ?thesis using dpos by simp
qed

lemma dot_zero: "dot u \<lparr>ptx = 0, pty = 0\<rparr> = 0"
  by (simp add: dot_def)

lemma straight_self:
  assumes "straightThrough stations station line"
  shows "0.99 \<le> dot (flowDir stations station line) (flowDir stations station line)"
proof -
  obtain pp pn where p: "prevPoint stations station line = Some (Some pp)"
      "nextPoint stations station line = Some (Some pn)"
      "0.99 \<le> dot (getDir pp (pointOf station)) (getDir (pointOf station) pn)"
    using assms by (auto simp: straightThrough_def split: option.splits)
  have f: "flowDir stations station line = getDir (pointOf station) pn"
    using p(2) by (simp add: flowDir_def)
  have "getDir (pointOf station) pn \<noteq> \<lparr>ptx = 0, pty = 0\<rparr>"
    using p(3) dot_zero[of "getDir pp (pointOf station)"] by auto
  then show ?thesis using getDir_unit f by simp
qed

lemma pillLoop_None:
  "pillLoop stations station (l # ls) None
   = (if \<forall>k \<in> set (l # ls). qualifies stations station (flowDir stations station l) k
      then Some (True, Some (flowDir stations station l))
      else Some (False, if straightThrough stations station l then Some (flowDir stations station l) else None))"
  unfolding pillLoop_step using straight_self[of stations station l]
  by (auto simp: pillLoop_Some qualifies_def)


lemma pillLoop_cong:
  assumes "prevPoint stations station l' = prevPoint stations station l"
    and "nextPoint stations station l' = nextPoint stations station l"
  shows "pillLoop stations station (ls1 @ l' # ls2) bd = pillLoop stations station (ls1 @ l # ls2) bd"
proof (induction ls1 arbitrary: bd)
  case Nil
  have "straightThrough stations station l' = straightThrough stations station l"
    "flowDir stations station l' = flowDir stations station l"
    using assms by (simp_all add: straightThrough_def flowDir_def)
  then show ?case by (simp add: pillLoop_step del: pillLoop.simps split: option.splits)
next
  case (Cons a ls1)
  show ?case using Cons by (simp add: pillLoop_step del: pillLoop.simps split: option.splits)
qed

lemma indexOf_first:
  "v \<notin> set pre \<Longrightarrow> indexOf (pre @ v # post) v = int (length pre)"
  by (induction pre) (auto simp: Let_def)

lemma elemAt_append_last: "pre \<noteq> [] \<Longrightarrow> elemAt (pre @ ys) (int (length pre) - 1) = Some (last pre)"
proof -
  assume ne: "pre \<noteq> []"
  then have n: "nat (int (length pre) - 1) = length pre - 1" by simp
  have l: "length pre - 1 < length pre" using ne by simp
  have "0 \<le> int (length pre) - 1" using ne by (cases pre) auto
  then show ?thesis using ne l
    by (simp add: elemAt_def n nth_append last_conv_nth)
qed

lemma elemAt_last: "ys \<noteq> [] \<Longrightarrow> elemAt ys (int (length ys) - 1) = Some (last ys)"
  using elemAt_append_last[of ys "[]"] by simp

lemma elemAt_after: "elemAt (pre @ v # post) (int (length pre) + 1) = (case post of [] \<Rightarrow> None | n # _ \<Rightarrow> Some n)"
  by (cases post) (auto simp: elemAt_def nth_append nat_add_distrib)

lemma elemAt_0: "elemAt (a # ys) 0 = Some a"
  by (simp add: elemAt_def)

lemma neighbours_first_occurrence:
  assumes "stationIds line = pre @ sid station # post" and "sid station \<notin> set pre"
  shows "prevPoint stations station line = prevPointAt stations station line (int (length pre))"
    and "nextPoint stations station line = nextPointAt stations station line (int (length pre))"
  using assms by (simp_all add: prevPoint_def nextPoint_def indexOf_first)

lemma prevPointAt_cong:
  assumes "closedLoop l' = closedLoop l" and "alternateRoute l' = alternateRoute l"
    and "idx \<noteq> 0 \<Longrightarrow> elemAt (stationIds l') (idx - 1) = elemAt (stationIds l) (idx - 1)"
    and "idx = 0 \<Longrightarrow> closedLoop l \<Longrightarrow>
           elemAt (stationIds l') (int (length (stationIds l')) - 1)
           = elemAt (stationIds l) (int (length (stationIds l)) - 1)"
  shows "prevPointAt stations station l' idx = prevPointAt stations station l idx"
proof (cases "idx = 0")
  case True
  show ?thesis
  proof (cases "closedLoop l")
    case c: True
    show ?thesis unfolding prevPointAt_def Let_def assms(1,2) using True c assms(4) by simp
  next
    case c: False
    show ?thesis unfolding prevPointAt_def Let_def assms(1,2) using True c by simp
  qed
next
  case False
  show ?thesis unfolding prevPointAt_def Let_def assms(1,2) using False assms(3) by simp
qed

lemma nextPointAt_cong:
  assumes "closedLoop l' = closedLoop l" and "alternateRoute l' = alternateRoute l"
    and "(idx = int (length (stationIds l')) - 1) = (idx = int (length (stationIds l)) - 1)"
    and "elemAt (stationIds l') (idx + 1) = elemAt (stationIds l) (idx + 1)"
    and "elemAt (stationIds l') 0 = elemAt (stationIds l) 0"
  shows "nextPointAt stations station l' idx = nextPointAt stations station l idx"
  unfolding nextPointAt_def Let_def assms by simp

lemma neighbours_same:
  assumes l: "stationIds line = pre @ sid station # post" and n: "sid station \<notin> set pre"
    and l': "stationIds line' = pre @ sid station # post'"
    and c: "closedLoop line' = closedLoop line" and a: "alternateRoute line' = alternateRoute line"
    and t: "take 1 post' = take 1 post"
    and w: "pre \<noteq> [] \<or> \<not> closedLoop line \<or> last (sid station # post') = last (sid station # post)"
  shows "prevPoint stations station line' = prevPoint stations station line"
    and "nextPoint stations station line' = nextPoint stations station line"
proof -
  have e: "(post' = []) = (post = [])" using t by (cases post; cases post') auto
  have h: "post \<noteq> [] \<Longrightarrow> hd post' = hd post" using t by (cases post; cases post') auto
  have lastl: "elemAt (stationIds line) (int (length (stationIds line)) - 1) = Some (last (sid station # post))"
    using elemAt_last[of "stationIds line"] l by simp
  have lastl': "elemAt (stationIds line') (int (length (stationIds line')) - 1) = Some (last (sid station # post'))"
    using elemAt_last[of "stationIds line'"] l' by simp
  have prevw: "pre \<noteq> [] \<Longrightarrow> elemAt (stationIds line') (int (length pre) - 1) = elemAt (stationIds line) (int (length pre) - 1)"
    using elemAt_append_last l l' by metis
  have wrap: "closedLoop line \<Longrightarrow> int (length pre) = 0 \<Longrightarrow>
      elemAt (stationIds line') (int (length (stationIds line')) - 1)
      = elemAt (stationIds line) (int (length (stationIds line)) - 1)"
    using w lastl lastl' by auto
  show "prevPoint stations station line' = prevPoint stations station line"
    unfolding neighbours_first_occurrence(1)[OF l n] neighbours_first_occurrence(1)[OF l' n]
    using c a prevw wrap by (intro prevPointAt_cong) auto
  have first: "elemAt (stationIds line') 0 = elemAt (stationIds line) 0"
    using l l' by (cases pre) (simp_all add: elemAt_0)
  have after: "elemAt (stationIds line') (int (length pre) + 1) = elemAt (stationIds line) (int (length pre) + 1)"
    unfolding l l' elemAt_after using t by (cases post; cases post') auto
  have isEnd: "(int (length pre) = int (length (stationIds line')) - 1) = (int (length pre) = int (length (stationIds line)) - 1)"
    using e l l' by auto
  show "nextPoint stations station line' = nextPoint stations station line"
    unfolding neighbours_first_occurrence(2)[OF l n] neighbours_first_occurrence(2)[OF l' n]
    using first after isEnd c a by (intro nextPointAt_cong)
qed

lemma getStationShape_cong:
  assumes "prevPoint stations station l' = prevPoint stations station l"
    and "nextPoint stations station l' = nextPoint stations station l"
    and "sid station \<in> set (stationIds l')" "sid station \<in> set (stationIds l)"
  shows "getStationShape (ls1 @ l' # ls2) stations station = getStationShape (ls1 @ l # ls2) stations station"
proof -
  let ?P = "\<lambda>l. sid station \<in> set (stationIds l)"
  have f: "filter ?P (ls1 @ l' # ls2) = filter ?P ls1 @ l' # filter ?P ls2"
    "filter ?P (ls1 @ l # ls2) = filter ?P ls1 @ l # filter ?P ls2"
    using assms(3,4) by simp_all
  have len: "length (filter ?P ls1 @ l' # filter ?P ls2) = length (filter ?P ls1 @ l # filter ?P ls2)"
    by simp
  define F :: "nat \<Rightarrow> (bool \<times> point option) option \<Rightarrow> StationShape option" where
    "F n r = (if n < 2 then Some \<lparr>shapeType = standard, shapeCount = 1, shapeAngle = 0\<rparr>
         else
           do { (validPill, bundleDir) \<leftarrow> r;
                (case bundleDir of
                   Some bd \<Rightarrow>
                     if validPill then
                       let normal = getNormal bd;
                           angle = atan2 (pty normal) (ptx normal) * 180 / pi
                       in Some \<lparr>shapeType = pill, shapeCount = n, shapeAngle = angle\<rparr>
                     else Some \<lparr>shapeType = standard, shapeCount = n, shapeAngle = 0\<rparr>
                 | None \<Rightarrow>
                     Some \<lparr>shapeType = standard, shapeCount = n, shapeAngle = 0\<rparr>) })" for n r
  have g: "getStationShape lines stations station
           = F (length (filter ?P lines)) (pillLoop stations station (filter ?P lines) None)" for lines
    unfolding getStationShape_def F_def Let_def ..
  show ?thesis
    unfolding g f len pillLoop_cong[OF assms(1,2), of "filter ?P ls1" "filter ?P ls2" None] ..
qed

lemma example_routes:
  "getOctolinearSegment (pointOf stA) \<lparr>ptx = sx stB, pty = sy stB\<rparr> alt
     = Some [pointOf stA, \<lparr>ptx = sx stB, pty = sy stB\<rparr>]"
  "getOctolinearSegment \<lparr>ptx = sx stB, pty = sy stB\<rparr> (pointOf stC) alt
     = Some [\<lparr>ptx = sx stB, pty = sy stB\<rparr>, pointOf stC]"
  by (simp_all add: getOctolinearSegment_def pointOf_def stA_def stB_def stC_def)

lemma example_prev:
  "prevPoint [stA, stB, stC] stB ln4 = Some (Some (pointOf stA))"
  "prevPoint [stA, stB, stC] stB ln5 = Some (Some (pointOf stA))"
  unfolding prevPoint_def prevPointAt_def Let_def
  by (simp_all add: ln4_def ln5_def elemAt_def example_routes)
     (simp_all add: stA_def stB_def stC_def)

lemma example_next:
  "nextPoint [stA, stB, stC] stB ln4 = Some (Some (pointOf stC))"
  "nextPoint [stA, stB, stC] stB ln5 = Some (Some (pointOf stC))"
  unfolding nextPoint_def nextPointAt_def Let_def
  by (simp_all add: ln4_def ln5_def elemAt_def example_routes)
     (simp_all add: stA_def stB_def stC_def)

lemma example_dirs:
  "getDir (pointOf stA) (pointOf stB) = \<lparr>ptx = 1, pty = 0\<rparr>"
  "getDir (pointOf stB) (pointOf stC) = \<lparr>ptx = 1, pty = 0\<rparr>"
  by (simp_all add: getDir_def pointOf_def stA_def stB_def stC_def hypot_zero_r)

lemma example_straight:
  "straightThrough [stA, stB, stC] stB ln4" "straightThrough [stA, stB, stC] stB ln5"
  by (simp_all add: straightThrough_def example_prev example_next example_dirs dot_def)

lemma example_flow:
  "flowDir [stA, stB, stC] stB ln4 = \<lparr>ptx = 1, pty = 0\<rparr>"
  "flowDir [stA, stB, stC] stB ln5 = \<lparr>ptx = 1, pty = 0\<rparr>"
  by (simp_all add: flowDir_def example_next example_dirs)




subsection \<open>A closed loop that ends where it starts, evaluated\<close>

lemma getStationShape_passing:
  assumes "passing lines station = l # ls" "ls \<noteq> []"
  shows "getStationShape lines stations station
      = (if \<forall>k \<in> set (l # ls). qualifies stations station (flowDir stations station l) k then
           Some \<lparr>shapeType = pill, shapeCount = length (l # ls),
                 shapeAngle = atan2 (pty (getNormal (flowDir stations station l)))
                                    (ptx (getNormal (flowDir stations station l))) * 180 / pi\<rparr>
         else Some \<lparr>shapeType = standard, shapeCount = length (l # ls), shapeAngle = 0\<rparr>)"
proof -
  have "\<not> length (passing lines station) < 2" using assms by (cases ls) auto
  then show ?thesis
    using assms unfolding getStationShape_def passing_def[symmetric] Let_def assms(1) pillLoop_None
    by (simp split: if_splits)
qed

lemma loop_routes:
  "getOctolinearSegment \<lparr>ptx = sx stB, pty = sy stB\<rparr> (pointOf stC) alt
     = Some [\<lparr>ptx = sx stB, pty = sy stB\<rparr>, pointOf stC]"
  "getOctolinearSegment (pointOf stA) \<lparr>ptx = sx stB, pty = sy stB\<rparr> alt
     = Some [pointOf stA, \<lparr>ptx = sx stB, pty = sy stB\<rparr>]"
  "getOctolinearSegment (pointOf stB) \<lparr>ptx = sx stB, pty = sy stB\<rparr> alt
     = Some [pointOf stB, \<lparr>ptx = sx stB, pty = sy stB\<rparr>]"
  by (simp_all add: getOctolinearSegment_def pointOf_def stA_def stB_def stC_def)

lemma loop_prev:
  "prevPoint [stA, stB, stC] stB ln7 = Some (Some (pointOf stA))"
  "prevPoint [stA, stB, stC] stB ln8 = Some (Some (pointOf stB))"
  unfolding prevPoint_def prevPointAt_def Let_def
  by (simp_all add: ln7_def ln8_def elemAt_def loop_routes)
     (simp_all add: stA_def stB_def stC_def)

lemma loop_next:
  "nextPoint [stA, stB, stC] stB ln7 = Some (Some (pointOf stC))"
  "nextPoint [stA, stB, stC] stB ln8 = Some (Some (pointOf stC))"
  unfolding nextPoint_def nextPointAt_def Let_def
  by (simp_all add: ln7_def ln8_def elemAt_def loop_routes)
     (simp_all add: stA_def stB_def stC_def)

lemma getDir_same: "getDir p p = \<lparr>ptx = 0, pty = 0\<rparr>"
  by (simp add: getDir_def hypot_def)

lemma loop_straight:
  "straightThrough [stA, stB, stC] stB ln7"
  "\<not> straightThrough [stA, stB, stC] stB ln8"
  by (simp_all add: straightThrough_def loop_prev loop_next example_dirs getDir_same dot_def)

lemma loop_flow: "flowDir [stA, stB, stC] stB ln7 = \<lparr>ptx = 1, pty = 0\<rparr>"
  by (simp add: flowDir_def loop_next example_dirs)

lemma loop_passing:
  "passing [ln7, ln5] stB = [ln7, ln5]" "passing [ln8, ln5] stB = [ln8, ln5]"
  by (simp_all add: passing_def ln7_def ln8_def ln5_def stB_def)

text \<open>
  C10. The index at which the classifier looks for the routed neighbours of a station is
  that of the first occurrence of its id in the line's sequence, and the shape does not
  change when the sequence after the first occurrence is replaced by another one with
  the same next entry and, for a closed loop that starts at the station, the same last
  entry. A later occurrence of the id counts only in one of these two places.
\<close>

theorem first_occurrence_decides:
  assumes "stationIds line = pre @ sid station # post" and "sid station \<notin> set pre"
    and "stationIds line' = pre @ sid station # post'"
    and "closedLoop line' = closedLoop line" and "alternateRoute line' = alternateRoute line"
    and "take 1 post' = take 1 post"
    and "pre \<noteq> [] \<or> \<not> closedLoop line \<or> last (sid station # post') = last (sid station # post)"
  shows "indexOf (stationIds line) (sid station) = int (length pre)
         \<and> indexOf (stationIds line') (sid station) = int (length pre)
         \<and> getStationShape (ls1 @ line' # ls2) stations station
             = getStationShape (ls1 @ line # ls2) stations station"
proof -
  have "getStationShape (ls1 @ line' # ls2) stations station
        = getStationShape (ls1 @ line # ls2) stations station"
    using neighbours_same[OF assms] assms(1,3)
    by (intro getStationShape_cong) simp_all
  then show ?thesis using assms(1,2,3) by (simp add: indexOf_first)
qed

theorem first_occurrence_decides_witness:
  "stationIds ln6 = [''a''] @ sid stB # [''c'', ''b'', ''a'']
   \<and> sid stB \<notin> set [''a'']
   \<and> stationIds ln4 = [''a''] @ sid stB # [''c'']
   \<and> closedLoop ln4 = closedLoop ln6 \<and> alternateRoute ln4 = alternateRoute ln6
   \<and> take 1 [''c''] = take 1 [''c'', ''b'', ''a'']
   \<and> [''a''] \<noteq> []
   \<and> indexOf (stationIds ln6) (sid stB) = 1
   \<and> indexOf (stationIds ln4) (sid stB) = 1
   \<and> getStationShape ([] @ ln4 # [ln5]) [stA, stB, stC] stB
       = getStationShape ([] @ ln6 # [ln5]) [stA, stB, stC] stB"
proof -
  have a: "stationIds ln6 = [''a''] @ sid stB # [''c'', ''b'', ''a'']"
    by (simp add: ln6_def stB_def)
  have b: "sid stB \<notin> set [''a'']" by (simp add: stB_def)
  have c: "stationIds ln4 = [''a''] @ sid stB # [''c'']"
    by (simp add: ln4_def stB_def)
  have d: "closedLoop ln4 = closedLoop ln6" "alternateRoute ln4 = alternateRoute ln6"
    by (simp_all add: ln4_def ln6_def)
  have e: "take 1 [''c''] = take 1 [''c'', ''b'', ''a'']" by simp
  have f: "[''a''] \<noteq> [] \<or> \<not> closedLoop ln6
           \<or> last (sid stB # [''c'']) = last (sid stB # [''c'', ''b'', ''a''])" by simp
  note t = first_occurrence_decides [OF a b c d e f, of "[]" "[ln5]" "[stA, stB, stC]"]
  show ?thesis using a b c d e t by simp
qed

text \<open>
  A later occurrence in such a place does change the decision: the closed loop
  \<open>b, c, a\<close> passes straight through \<open>b\<close> and makes a pill with a second line, and with
  the id of \<open>b\<close> once more at its end the entry before the first occurrence is \<open>b\<close>
  itself, the incoming direction is zero, and the shape is standard.
\<close>

theorem later_occurrence_counterexample:
  "stationIds ln8 = stationIds ln7 @ [sid stB]
   \<and> closedLoop ln8 = closedLoop ln7 \<and> alternateRoute ln8 = alternateRoute ln7
   \<and> indexOf (stationIds ln7) (sid stB) = 0 \<and> indexOf (stationIds ln8) (sid stB) = 0
   \<and> getStationShape [ln7, ln5] [stA, stB, stC] stB
       = Some \<lparr>shapeType = pill, shapeCount = 2, shapeAngle = 90\<rparr>
   \<and> getStationShape [ln8, ln5] [stA, stB, stC] stB
       = Some \<lparr>shapeType = standard, shapeCount = 2, shapeAngle = 0\<rparr>"
proof -
  have a: "getStationShape [ln7, ln5] [stA, stB, stC] stB
       = Some \<lparr>shapeType = pill, shapeCount = 2, shapeAngle = 90\<rparr>"
    unfolding getStationShape_passing[OF loop_passing(1), simplified]
    by (simp add: qualifies_def loop_straight example_straight loop_flow example_flow dot_def
        getNormal_def atan2_def)
  have b: "getStationShape [ln8, ln5] [stA, stB, stC] stB
       = Some \<lparr>shapeType = standard, shapeCount = 2, shapeAngle = 0\<rparr>"
    unfolding getStationShape_passing[OF loop_passing(2), simplified]
    by (simp add: qualifies_def loop_straight)
  show ?thesis using a b by (simp add: ln7_def ln8_def stB_def)
qed

section \<open>Totality\<close>










subsection \<open>A corner between two parallel segments, evaluated\<close>















end
